(* ===== verification/Sputnik_Prelude.thy ===== *)
theory Sputnik_Prelude
  imports
    Main
    "HOL-Library.Word"
    "HOL-Library.Multiset"
    "HOL-Library.Char_ord"
    "HOL-Library.List_Lexorder"
    "HOL-Library.Sublist"
begin

text \<open>
  Shared ground of the development: the theorem collections, the list loops that the
  C++ code writes with iterators, the decimal rendering of \<open>std::to_string\<close>, and the
  exceptions that the modelled operations can raise.
\<close>

named_theorems wf_intros \<open>an operation keeps the well-formedness of its component\<close>
named_theorems op_simps \<open>the effect of an operation on a field of the state\<close>

section \<open>Exceptions\<close>

text \<open>
  Every C++ exception that a modelled operation can raise, one constructor per throwing
  site: an explicit \<open>throw Fmi::Exception\<close>, \<open>std::vector::at\<close>, a failing
  \<open>boost::numeric_cast\<close>, or a library call that throws. \<open>BadCast\<close> is a float to
  integer cast or a signed sum outside the range of \<open>int\<close>, which C++ leaves undefined.
\<close>

datatype exn =
    NoBackendsAvailable
  | OutOfRange
  | NumericCast
  | BadCast
  | UnknownForwardingMode string
  | NoReactor
  | StoiError string
  | SocketError string
  | HookRefused

section \<open>Iterator loops over a vector\<close>

text \<open>
  \<open>for (it = v.begin(); it != v.end(); ++it) if (p) \<lbrace> v.erase(it); break; \<rbrace>\<close>:
  only the first matching element goes.
\<close>

fun erase_first :: "('a \<Rightarrow> bool) \<Rightarrow> 'a list \<Rightarrow> 'a list" where
  "erase_first p [] = []"
| "erase_first p (x # xs) = (if p x then xs else x # erase_first p xs)"

text \<open>
  \<open>for (it = v.begin(); it != v.end();) \<lbrace> visit; if (gone) \<lbrace> on_erase; it = v.erase(it); \<rbrace>
  else ++it; \<rbrace>\<close>: a state \<open>s\<close> is threaded through the visited elements.
\<close>

fun erase_loop ::
  "('a \<Rightarrow> bool) \<Rightarrow> ('a \<Rightarrow> 's \<Rightarrow> 's) \<Rightarrow> ('a \<Rightarrow> 's \<Rightarrow> 's) \<Rightarrow> 'a list \<Rightarrow> 's \<Rightarrow> 'a list \<times> 's" where
  "erase_loop gone visit on_erase [] s = ([], s)"
| "erase_loop gone visit on_erase (x # xs) s =
     (if gone x then erase_loop gone visit on_erase xs (on_erase x (visit x s))
      else (let (ys, s') = erase_loop gone visit on_erase xs (visit x s) in (x # ys, s')))"

lemma fst_erase_loop [simp]:
  "fst (erase_loop gone visit on_erase xs s) = filter (\<lambda>x. \<not> gone x) xs"
  by (induction xs arbitrary: s) (auto simp: case_prod_beta)

lemma erase_loop_none_dropped:
  "\<forall>x \<in> set xs. \<not> gone x \<Longrightarrow> snd (erase_loop gone visit on_erase xs s) = foldl (\<lambda>s x. visit x s) s xs"
  by (induction xs arbitrary: s) (auto simp: case_prod_beta)

lemma erase_loop_invariant:
  "I s \<Longrightarrow> (\<And>x s. I s \<Longrightarrow> I (visit x s)) \<Longrightarrow> (\<And>x s. I s \<Longrightarrow> I (on_erase x s)) \<Longrightarrow>
     I (snd (erase_loop gone visit on_erase xs s))"
  by (induction xs arbitrary: s) (auto simp: case_prod_beta)

text \<open>A loop over two independent states is two loops.\<close>

lemma erase_loop_pair:
  "snd (erase_loop gone (\<lambda>x (a, b). (v x a, b)) (\<lambda>x (a, b). (a, e x b)) xs (a, b)) =
     (foldl (\<lambda>a x. v x a) a xs, snd (erase_loop gone (\<lambda>x b. b) e xs b))"
  by (induction xs arbitrary: a b) (auto simp: case_prod_beta)

lemma erase_first_map:
  "(\<And>x. x \<in> set xs \<Longrightarrow> p x \<longleftrightarrow> f x = k) \<Longrightarrow> map f (erase_first p xs) = remove1 k (map f xs)"
  by (induction xs) auto

lemma erase_first_append:
  "\<forall>x \<in> set xs. \<not> p x \<Longrightarrow> erase_first p (xs @ ys) = xs @ erase_first p ys"
  by (induction xs) auto

lemma set_erase_first: "set (erase_first p xs) \<subseteq> set xs"
  by (induction xs) auto

section \<open>Decimal rendering\<close>

text \<open>
  \<open>std::to_string(int)\<close>: the decimal digits, with a minus sign in front of a negative
  number.
\<close>

definition digit_char :: "nat \<Rightarrow> char" where
  "digit_char d = char_of (48 + d)"

fun nat_string :: "nat \<Rightarrow> string" where
  "nat_string n =
     (if n < 10 then [digit_char n] else nat_string (n div 10) @ [digit_char (n mod 10)])"

declare nat_string.simps [simp del]

definition to_string :: "int \<Rightarrow> string" where
  "to_string i = (if i < 0 then CHR ''-'' # nat_string (nat (- i)) else nat_string (nat i))"

definition decimal_value :: "string \<Rightarrow> nat" where
  "decimal_value = foldl (\<lambda>a c. 10 * a + (of_char c - 48)) 0"

lemma of_char_digit: "d < 10 \<Longrightarrow> (of_char (digit_char d) :: nat) = 48 + d"
  by (simp add: digit_char_def take_bit_nat_eq_self)

lemma decimal_value_nat_string [simp]: "decimal_value (nat_string n) = n"
proof (induction n rule: nat_string.induct)
  case (1 n)
  then show ?case
    by (subst nat_string.simps) (auto simp: decimal_value_def of_char_digit)
qed

lemma digits_nat_string: "c \<in> set (nat_string n) \<Longrightarrow> 48 \<le> (of_char c :: nat) \<and> (of_char c :: nat) \<le> 57"
proof (induction n rule: nat_string.induct)
  case (1 n)
  show ?case
  proof (cases "n < 10")
    case True
    with "1.prems" show ?thesis by (auto simp: nat_string.simps [of n] of_char_digit)
  next
    case False
    have "n mod 10 < 10" by simp
    with False "1" show ?thesis by (auto simp: nat_string.simps [of n] of_char_digit)
  qed
qed

lemma nat_string_inj: "nat_string m = nat_string n \<Longrightarrow> m = n"
  by (metis decimal_value_nat_string)

lemma minus_notin_nat_string: "CHR ''-'' \<notin> set (nat_string n)"
  using digits_nat_string [of "CHR ''-''" n] by auto

lemma nat_string_neq_minus: "nat_string n \<noteq> CHR ''-'' # xs"
  using minus_notin_nat_string [of n] by (metis list.set_intros(1))

lemma to_string_inj [simp]: "to_string i = to_string j \<longleftrightarrow> i = j"
proof
  assume eq: "to_string i = to_string j"
  then show "i = j"
    using nat_string_inj [of "nat (- i)" "nat (- j)"] nat_string_inj [of "nat i" "nat j"]
      nat_string_neq_minus nat_string_neq_minus [symmetric]
    by (auto simp: to_string_def split: if_splits)
qed simp

lemma colon_notin_to_string: "CHR '':'' \<notin> set (to_string i)"
  using digits_nat_string [of "CHR '':''"] by (auto simp: to_string_def)

lemma bar_notin_to_string: "CHR ''|'' \<notin> set (to_string i)"
  using digits_nat_string [of "CHR ''|''"] by (auto simp: to_string_def)

text \<open>
  A separator that does not occur behind it splits a string in one way only: this is what
  makes the composite keys of the code (\<open>name:port\<close>) unambiguous.
\<close>

lemma append_sep_inj:
  assumes "xs @ c # ys = xs' @ c # ys'" and "c \<notin> set ys" and "c \<notin> set ys'"
  shows "xs = xs' \<and> ys = ys'"
  using assms
proof (induction xs arbitrary: xs')
  case Nil
  then show ?case by (cases xs') auto
next
  case (Cons x xs)
  then show ?case by (cases xs') auto
qed

lemma append_sep_inj_left:
  assumes "xs @ c # ys = xs' @ c # ys'" and "c \<notin> set xs" and "c \<notin> set xs'"
  shows "xs = xs' \<and> ys = ys'"
  using assms
proof (induction xs arbitrary: xs')
  case Nil
  then show ?case by (cases xs') auto
next
  case (Cons x xs)
  then show ?case by (cases xs') auto
qed

section \<open>Searching a string\<close>

text \<open>\<open>std::string::find(c)\<close>: the position of the first \<open>c\<close>, \<open>None\<close> for \<open>npos\<close>.\<close>

fun find_char :: "char \<Rightarrow> string \<Rightarrow> nat option" where
  "find_char c [] = None"
| "find_char c (x # xs) = (if x = c then Some 0 else map_option Suc (find_char c xs))"

lemma find_char_None [simp]: "find_char c s = None \<longleftrightarrow> c \<notin> set s"
  by (induction s) auto

lemma find_char_Some:
  "find_char c s = Some i \<longleftrightarrow> i < length s \<and> s ! i = c \<and> c \<notin> set (take i s)"
proof (induction s arbitrary: i)
  case (Cons x xs)
  then show ?case by (cases i) auto
qed simp

lemma find_char_split:
  "find_char c s = Some i \<Longrightarrow> s = take i s @ c # drop (Suc i) s"
  by (auto simp: find_char_Some id_take_nth_drop)

lemma find_char_append [simp]: "c \<notin> set xs \<Longrightarrow> find_char c (xs @ c # ys) = Some (length xs)"
  by (induction xs) auto

end
