(* ===== verification/Binary_Float.thy ===== *)
theory Binary_Float
  imports Complex_Main "HOL-Library.Log_Nat" Sputnik_Prelude
begin

text \<open>
  The C++ types \<open>float\<close> and \<open>double\<close> on the platform the engine is built for: IEEE 754
  binary32 and binary64 with the default rounding direction (to nearest, ties to even).
  A finite value is the real number it denotes; both zeros are \<open>Fin 0\<close>. The sign of a
  zero is observable only as the divisor of a division, and every divisor of the code is
  a sum whose zero is positive (\<open>1.0F + a * c\<close> and an accumulation from \<open>0.0F\<close>).
\<close>

section \<open>Round half to even\<close>

definition round_half_even :: "real \<Rightarrow> int" where
  "round_half_even y =
     (let f = \<lfloor>y\<rfloor>; d = y - of_int f
      in if d < 1 / 2 then f else if 1 / 2 < d then f + 1 else if even f then f else f + 1)"

lemma round_half_even_of_int [simp]: "round_half_even (of_int n) = n"
  by (simp add: round_half_even_def)

lemma round_half_even_mono:
  assumes "x \<le> y"
  shows "round_half_even x \<le> round_half_even y"
proof -
  have fl: "\<lfloor>x\<rfloor> \<le> \<lfloor>y\<rfloor>" using assms by (rule floor_mono)
  show ?thesis
  proof (cases "\<lfloor>x\<rfloor> = \<lfloor>y\<rfloor>")
    case True
    with assms show ?thesis by (auto simp: round_half_even_def Let_def)
  next
    case False
    with fl have "\<lfloor>x\<rfloor> + 1 \<le> \<lfloor>y\<rfloor>" by simp
    then show ?thesis by (auto simp: round_half_even_def Let_def)
  qed
qed

section \<open>Rounding to a precision\<close>

text \<open>
  \<open>t\<close> counts units of the smallest subnormal. A value of \<open>L\<close> bits is kept to \<open>p\<close>
  significant bits, so its grid is \<open>2 ^ (L - p)\<close> units (one unit when it is subnormal).
\<close>

definition bits_of :: "real \<Rightarrow> nat" where
  "bits_of t = floorlog 2 (nat \<lfloor>t\<rfloor>)"

definition round_grid :: "nat \<Rightarrow> real \<Rightarrow> real" where
  "round_grid p t = (let s = 2 ^ (bits_of t - p) in of_int (round_half_even (t / s)) * s)"

definition rne :: "nat \<Rightarrow> nat \<Rightarrow> real \<Rightarrow> real" where
  "rne p q x = sgn x * round_grid p (\<bar>x\<bar> * 2 ^ q) / 2 ^ q"

lemma bits_of_mono: "t \<le> u \<Longrightarrow> bits_of t \<le> bits_of u"
  unfolding bits_of_def by (intro floorlog_mono nat_mono floor_mono)

lemma lt_bits_of:
  assumes "0 \<le> t"
  shows "t < 2 ^ bits_of t"
proof -
  have "nat \<lfloor>t\<rfloor> < 2 ^ bits_of t"
    using floorlog_bounds [of "nat \<lfloor>t\<rfloor>" 2]
    by (cases "nat \<lfloor>t\<rfloor> = 0") (auto simp: bits_of_def floorlog_def)
  then have "\<lfloor>t\<rfloor> < 2 ^ bits_of t" using assms by (simp add: nat_less_iff)
  then show ?thesis by (simp add: floor_less_iff)
qed

lemma bits_of_le:
  assumes "0 < bits_of t"
  shows "2 ^ (bits_of t - 1) \<le> t"
proof -
  from assms have "0 < nat \<lfloor>t\<rfloor>" by (simp add: bits_of_def floorlog_def split: if_splits)
  then have "2 ^ (bits_of t - 1) \<le> nat \<lfloor>t\<rfloor>"
    using floorlog_bounds [of "nat \<lfloor>t\<rfloor>" 2] by (simp add: bits_of_def)
  then have "2 ^ (bits_of t - 1) \<le> \<lfloor>t\<rfloor>" by (simp add: le_nat_iff)
  then show ?thesis by (simp add: le_floor_iff)
qed

lemma grid_le:
  assumes "of_int m * 2 ^ (bits_of t - p) \<le> t"
  shows "of_int m * 2 ^ (bits_of t - p) \<le> round_grid p t"
proof -
  have "of_int m \<le> t / 2 ^ (bits_of t - p)" using assms by (simp add: field_simps)
  from round_half_even_mono [OF this] show ?thesis
    by (simp add: round_grid_def Let_def mult_right_mono)
qed

lemma le_grid:
  assumes "t \<le> of_int m * 2 ^ (bits_of t - p)"
  shows "round_grid p t \<le> of_int m * 2 ^ (bits_of t - p)"
proof -
  have "t / 2 ^ (bits_of t - p) \<le> of_int m" using assms by (simp add: field_simps)
  from round_half_even_mono [OF this] show ?thesis
    by (simp add: round_grid_def Let_def mult_right_mono)
qed

lemma power_on_grid:
  assumes "j \<le> k"
  shows "(2 :: real) ^ k = of_int (2 ^ (k - j)) * 2 ^ j"
  using assms by (simp flip: power_add)

lemma round_grid_mono:
  assumes "0 < p" and "0 \<le> t" and "t \<le> u"
  shows "round_grid p t \<le> round_grid p u"
proof (cases "bits_of t = bits_of u")
  case True
  have "t / 2 ^ (bits_of u - p) \<le> u / 2 ^ (bits_of u - p)"
    using assms by (simp add: divide_right_mono)
  from round_half_even_mono [OF this] True show ?thesis
    by (simp add: round_grid_def Let_def mult_right_mono)
next
  case False
  with bits_of_mono [OF assms(3)] have lt: "bits_of t \<le> bits_of u - 1" "0 < bits_of u" by auto
  have "round_grid p t \<le> 2 ^ bits_of t"
    using le_grid [of t "2 ^ (bits_of t - (bits_of t - p))" p] lt_bits_of [OF assms(2)]
      power_on_grid [of "bits_of t - p" "bits_of t"] by simp
  also have "\<dots> \<le> (2 :: real) ^ (bits_of u - 1)" using lt by (simp add: power_increasing)
  also have "\<dots> \<le> round_grid p u"
    using grid_le [of "2 ^ (bits_of u - 1 - (bits_of u - p))" u p] bits_of_le [OF lt(2)]
      power_on_grid [of "bits_of u - p" "bits_of u - 1"] assms(1) by simp
  finally show ?thesis .
qed

lemma round_grid_exact:
  assumes "m < 2 ^ p"
  shows "round_grid p (of_nat m * 2 ^ j) = of_nat m * 2 ^ j"
proof (cases "m = 0")
  case True
  then show ?thesis using round_half_even_of_int [of 0] by (simp add: round_grid_def)
next
  case False
  let ?t = "of_nat m * 2 ^ j :: real"
  have t: "?t = of_nat (m * 2 ^ j)" by simp
  have "bits_of ?t = floorlog 2 m + j"
    unfolding bits_of_def t floor_of_nat nat_int using False by simp
  also have "\<dots> \<le> p + j" using floorlog_leI [OF assms] by simp
  finally have le: "bits_of ?t - p \<le> j" by simp
  let ?s = "(2 :: real) ^ (bits_of ?t - p)"
  have "?t / ?s = of_int (int (m * 2 ^ (j - (bits_of ?t - p))))"
    using power_on_grid [OF le] by (simp add: field_simps)
  then have "round_half_even (?t / ?s) = int (m * 2 ^ (j - (bits_of ?t - p)))"
    by (metis round_half_even_of_int)
  then show ?thesis
    unfolding round_grid_def Let_def using power_on_grid [OF le] by simp
qed

section \<open>The interface of a rounding function\<close>

text \<open>
  What the arithmetic of the load balancers relies on: rounding is monotone, odd, and
  exact on the integers of at most \<open>p\<close> bits and on the powers \<open>2 ^ (-k)\<close> down to the
  smallest subnormal.
\<close>

locale rounding =
  fixes r :: "real \<Rightarrow> real" and p q :: nat
  assumes mono: "x \<le> y \<Longrightarrow> r x \<le> r y"
    and odd: "r (- x) = - r x"
    and int_exact: "\<bar>n\<bar> \<le> 2 ^ p \<Longrightarrow> r (of_int n) = of_int n"
    and power_exact: "k \<le> q \<Longrightarrow> r (1 / 2 ^ k) = 1 / 2 ^ k"
begin

lemma zero [simp]: "r 0 = 0"
  using int_exact [of 0] by simp

lemma one [simp]: "r 1 = 1"
  using int_exact [of 1] by simp

lemma nonneg: "0 \<le> x \<Longrightarrow> 0 \<le> r x"
  using mono [of 0 x] by simp

lemma ge_int: "\<bar>n\<bar> \<le> 2 ^ p \<Longrightarrow> of_int n \<le> x \<Longrightarrow> of_int n \<le> r x"
  using mono [of "of_int n" x] int_exact [of n] by simp

lemma le_int: "\<bar>n\<bar> \<le> 2 ^ p \<Longrightarrow> x \<le> of_int n \<Longrightarrow> r x \<le> of_int n"
  using mono [of x "of_int n"] int_exact [of n] by simp

lemma ge_one: "1 \<le> x \<Longrightarrow> 1 \<le> r x"
  using mono [of 1 x] by simp

lemma le_one: "x \<le> 1 \<Longrightarrow> r x \<le> 1"
  using mono [of x 1] by simp

lemma ge_power: "k \<le> q \<Longrightarrow> 1 / 2 ^ k \<le> x \<Longrightarrow> 1 / 2 ^ k \<le> r x"
  using mono [of "1 / 2 ^ k" x] power_exact [of k] by simp

lemma positive: "k \<le> q \<Longrightarrow> 1 / 2 ^ k \<le> x \<Longrightarrow> 0 < r x"
  using ge_power [of k x] by (smt (verit) divide_pos_pos zero_less_power)

end

lemma rne_odd: "rne p q (- x) = - rne p q x"
  by (simp add: rne_def sgn_minus)

lemma round_grid_nonneg: "0 < p \<Longrightarrow> 0 \<le> t \<Longrightarrow> 0 \<le> round_grid p t"
  using round_grid_mono [of p 0 t] round_grid_exact [of 0 p 0] by simp

lemma rne_nonneg: "0 < p \<Longrightarrow> 0 \<le> x \<Longrightarrow> 0 \<le> rne p q x"
  by (simp add: rne_def round_grid_nonneg sgn_if)

lemma rne_mono_nonneg:
  assumes "0 < p" and "0 \<le> x" and "x \<le> y"
  shows "rne p q x \<le> rne p q y"
proof (cases "x = 0")
  case True
  then show ?thesis using rne_nonneg [of p y q] assms by (simp add: rne_def)
next
  case False
  with assms have "round_grid p (x * 2 ^ q) \<le> round_grid p (y * 2 ^ q)"
    by (intro round_grid_mono) auto
  with False assms show ?thesis by (simp add: rne_def sgn_if divide_right_mono)
qed

lemma rne_mono:
  assumes "0 < p" and "x \<le> y"
  shows "rne p q x \<le> rne p q y"
proof -
  consider "0 \<le> x" | "x < 0" "0 \<le> y" | "y < 0" by linarith
  then show ?thesis
  proof cases
    case 1
    then show ?thesis using assms by (intro rne_mono_nonneg)
  next
    case 2
    then show ?thesis
      using rne_nonneg [of p "- x" q] rne_nonneg [of p y q] assms(1) rne_odd [of p q x] by simp
  next
    case 3
    then show ?thesis
      using rne_mono_nonneg [of p "- y" "- x" q] assms rne_odd [of p q] by simp
  qed
qed

lemma rne_exact:
  assumes "m < 2 ^ p" and "x * 2 ^ q = of_nat m * 2 ^ j" and "0 \<le> x"
  shows "rne p q x = x"
proof (cases "x = 0")
  case False
  have "round_grid p (\<bar>x\<bar> * 2 ^ q) = x * 2 ^ q"
    using round_grid_exact [OF assms(1), of j] assms(2,3) by simp
  with False assms(3) show ?thesis by (simp add: rne_def sgn_if)
qed (simp add: rne_def)

lemma rne_of_nat_exact:
  assumes "0 < p" and "n \<le> 2 ^ p"
  shows "rne p q (of_nat n) = of_nat n"
proof (cases "n = 2 ^ p")
  case True
  then show ?thesis
    using rne_exact [of 1 p "of_nat n" q "p + q"] one_less_power [of "2 :: nat" p] assms(1)
    by (simp add: power_add)
next
  case False
  with assms show ?thesis by (intro rne_exact [of n p _ q q]) auto
qed

lemma rounding_rne:
  assumes "0 < p"
  shows "rounding (rne p q) p q"
proof
  fix x y :: real and n :: int and k :: nat
  show "x \<le> y \<Longrightarrow> rne p q x \<le> rne p q y" using assms by (rule rne_mono)
  show "rne p q (- x) = - rne p q x" by (rule rne_odd)
  show "\<bar>n\<bar> \<le> 2 ^ p \<Longrightarrow> rne p q (of_int n) = of_int n"
    using rne_of_nat_exact [OF assms, of "nat \<bar>n\<bar>" q] rne_odd [of p q "of_int n"]
    by (cases "0 \<le> n") (auto simp: nat_le_iff)
  show "rne p q (1 / 2 ^ k) = 1 / 2 ^ k" if "k \<le> q"
    using rne_exact [of 1 p "1 / 2 ^ k" q "q - k"] one_less_power [of "2 :: nat" p] assms that
    by (simp add: field_simps flip: power_add)
qed

text \<open>binary32 has 24 significant bits and unit \<open>2 ^ (-149)\<close>, binary64 has 53 and \<open>2 ^ (-1074)\<close>.\<close>

interpretation r32: rounding "rne 24 149" 24 149
  by (rule rounding_rne) simp

interpretation r64: rounding "rne 53 1074" 53 1074
  by (rule rounding_rne) simp

section \<open>The arithmetic of float\<close>

datatype f32 = Fin real | PInf | NInf | NaN

definition f32_round :: "real \<Rightarrow> f32" where
  "f32_round x =
     (let y = rne 24 149 x
      in if 2 ^ 128 \<le> y then PInf else if y \<le> - (2 ^ 128) then NInf else Fin y)"

definition f32_of_int :: "int \<Rightarrow> f32" where
  "f32_of_int n = f32_round (of_int n)"

fun fneg :: "f32 \<Rightarrow> f32" where
  "fneg (Fin x) = Fin (- x)"
| "fneg PInf = NInf"
| "fneg NInf = PInf"
| "fneg NaN = NaN"

fun fadd :: "f32 \<Rightarrow> f32 \<Rightarrow> f32" where
  "fadd (Fin x) (Fin y) = f32_round (x + y)"
| "fadd NaN _ = NaN"
| "fadd _ NaN = NaN"
| "fadd PInf NInf = NaN"
| "fadd NInf PInf = NaN"
| "fadd PInf _ = PInf"
| "fadd NInf _ = NInf"
| "fadd (Fin _) PInf = PInf"
| "fadd (Fin _) NInf = NInf"

definition inf_signed :: "real \<Rightarrow> f32" where
  "inf_signed x = (if 0 < x then PInf else if x < 0 then NInf else NaN)"

fun fmul :: "f32 \<Rightarrow> f32 \<Rightarrow> f32" where
  "fmul (Fin x) (Fin y) = f32_round (x * y)"
| "fmul NaN _ = NaN"
| "fmul _ NaN = NaN"
| "fmul (Fin x) PInf = inf_signed x"
| "fmul (Fin x) NInf = inf_signed (- x)"
| "fmul PInf (Fin y) = inf_signed y"
| "fmul NInf (Fin y) = inf_signed (- y)"
| "fmul PInf PInf = PInf"
| "fmul PInf NInf = NInf"
| "fmul NInf PInf = NInf"
| "fmul NInf NInf = PInf"

fun fdiv :: "f32 \<Rightarrow> f32 \<Rightarrow> f32" where
  "fdiv (Fin x) (Fin y) = (if y = 0 then inf_signed x else f32_round (x / y))"
| "fdiv NaN _ = NaN"
| "fdiv _ NaN = NaN"
| "fdiv (Fin _) _ = Fin 0"
| "fdiv PInf (Fin y) = (if 0 \<le> y then PInf else NInf)"
| "fdiv NInf (Fin y) = (if 0 \<le> y then NInf else PInf)"
| "fdiv _ _ = NaN"

fun flt :: "f32 \<Rightarrow> f32 \<Rightarrow> bool" where
  "flt (Fin x) (Fin y) = (x < y)"
| "flt NaN _ = False"
| "flt _ NaN = False"
| "flt (Fin _) PInf = True"
| "flt NInf PInf = True"
| "flt NInf (Fin _) = True"
| "flt _ _ = False"

text \<open>\<open>std::max(a, b)\<close> is \<open>(a < b) ? b : a\<close>: a NaN on the right is dropped.\<close>

definition fmax :: "f32 \<Rightarrow> f32 \<Rightarrow> f32" where
  "fmax a b = (if flt a b then b else a)"

lemma f32_round_Fin:
  assumes "\<bar>x\<bar> \<le> 2 ^ 127"
  shows "f32_round x = Fin (rne 24 149 x)"
proof -
  have ex: "rne 24 149 (2 ^ 127) = 2 ^ 127"
    using rne_exact [of 1 24 "2 ^ 127" 149 276] by (simp flip: power_add)
  have "rne 24 149 x \<le> 2 ^ 127" "- (2 ^ 127) \<le> rne 24 149 x"
    using r32.mono [of x "2 ^ 127"] r32.mono [of "- (2 ^ 127)" x] assms ex r32.odd [of "2 ^ 127"]
    by (auto simp: abs_le_iff)
  then show ?thesis by (simp add: f32_round_def)
qed

lemma rne_power: "0 < p \<Longrightarrow> rne p q (2 ^ k) = 2 ^ k"
  using rne_exact [of 1 p "2 ^ k" q "k + q"] one_less_power [of "2 :: nat" p]
  by (simp add: power_add)

text \<open>A non-negative result of at most \<open>2 ^ k\<close> stays in these bounds and does not overflow.\<close>

lemma f32_round_within:
  assumes "0 \<le> x" and "x \<le> 2 ^ k" and "k \<le> 127"
  shows "f32_round x = Fin (rne 24 149 x) \<and> 0 \<le> rne 24 149 x \<and> rne 24 149 x \<le> 2 ^ k"
proof -
  have "(2 :: real) ^ k \<le> 2 ^ 127" using assms(3) by (rule power_increasing) simp
  then have "f32_round x = Fin (rne 24 149 x)" using assms by (intro f32_round_Fin) auto
  moreover have "rne 24 149 x \<le> 2 ^ k"
    using r32.mono [OF assms(2)] rne_power [of 24 149 k] by simp
  ultimately show ?thesis using r32.nonneg [OF assms(1)] by simp
qed

lemma f32_of_int_exact: "\<bar>n\<bar> \<le> 2 ^ 24 \<Longrightarrow> f32_of_int n = Fin (of_int n)"
  using f32_round_Fin [of "of_int n"] r32.int_exact [of n] by (simp add: f32_of_int_def)

end
