(* ===== verification/Ordered_Map.thy ===== *)
theory Ordered_Map
  imports Sputnik_Prelude
begin

text \<open>
  \<open>std::map\<close>: an association list in strictly increasing key order, because the code
  iterates its maps and the order of the visit is observable. Insertion and assignment
  through \<open>operator[]\<close>, \<open>find\<close> and \<open>erase\<close> are the operations the code uses.
\<close>

type_synonym ('k, 'v) omap = "('k \<times> 'v) list"

abbreviation omap_find :: "('k, 'v) omap \<Rightarrow> 'k \<Rightarrow> 'v option" where
  "omap_find m \<equiv> map_of m"

fun omap_set :: "'k::linorder \<Rightarrow> 'v \<Rightarrow> ('k, 'v) omap \<Rightarrow> ('k, 'v) omap" where
  "omap_set k v [] = [(k, v)]"
| "omap_set k v ((k', v') # m) =
     (if k < k' then (k, v) # (k', v') # m
      else if k = k' then (k, v) # m
      else (k', v') # omap_set k v m)"

definition omap_erase :: "'k \<Rightarrow> ('k, 'v) omap \<Rightarrow> ('k, 'v) omap" where
  "omap_erase k m = filter (\<lambda>e. fst e \<noteq> k) m"

definition omap_ok :: "('k::linorder, 'v) omap \<Rightarrow> bool" where
  "omap_ok m \<longleftrightarrow> sorted_wrt (<) (map fst m)"

text \<open>\<open>for (auto& e : m) e.second = f(e)\<close>: every value is replaced, no key moves.\<close>

definition omap_update :: "('k \<Rightarrow> 'v \<Rightarrow> 'w) \<Rightarrow> ('k, 'v) omap \<Rightarrow> ('k, 'w) omap" where
  "omap_update f m = map (\<lambda>(k, v). (k, f k v)) m"

section \<open>The interface of a keyed store\<close>

locale keyed_store =
  fixes find :: "'m \<Rightarrow> 'k \<Rightarrow> 'v option"
    and put :: "'k \<Rightarrow> 'v \<Rightarrow> 'm \<Rightarrow> 'm"
    and del :: "'k \<Rightarrow> 'm \<Rightarrow> 'm"
    and ok :: "'m \<Rightarrow> bool"
  assumes find_put: "find (put k v m) = (find m)(k \<mapsto> v)"
    and find_del: "find (del k m) = (find m)(k := None)"
    and ok_put: "ok m \<Longrightarrow> ok (put k v m)"
    and ok_del: "ok m \<Longrightarrow> ok (del k m)"
begin

lemma find_put_same [simp]: "find (put k v m) k = Some v"
  by (simp add: find_put)

lemma find_put_other [simp]: "k \<noteq> j \<Longrightarrow> find (put k v m) j = find m j"
  by (simp add: find_put)

lemma find_del_same [simp]: "find (del k m) k = None"
  by (simp add: find_del)

lemma find_put_cases: "find (put k v m) j = Some w \<Longrightarrow> (j = k \<and> w = v) \<or> find m j = Some w"
  by (auto simp: find_put split: if_splits)

text \<open>Erasing and inserting anew, as the code does for a sentinel, is an assignment.\<close>

lemma find_del_put: "find (put k v (del k m)) = find (put k v m)"
  by (simp add: find_put find_del)

lemma put_invariant:
  "(\<And>j w. find m j = Some w \<Longrightarrow> P j w) \<Longrightarrow> P k v \<Longrightarrow> find (put k v m) j = Some w \<Longrightarrow> P j w"
  by (auto simp: find_put split: if_splits)

end

section \<open>The ordered association list provides it\<close>

lemma set_keys_omap_set: "fst ` set (omap_set k v m) = insert k (fst ` set m)"
  by (induction k v m rule: omap_set.induct) auto

lemma omap_ok_Nil [simp, intro]: "omap_ok []"
  by (simp add: omap_ok_def)

lemma omap_ok_Cons [simp]:
  "omap_ok ((k, v) # m) \<longleftrightarrow> (\<forall>j \<in> fst ` set m. k < j) \<and> omap_ok m"
  by (auto simp: omap_ok_def)

lemma omap_ok_distinct: "omap_ok m \<Longrightarrow> distinct (map fst m)"
  by (simp add: omap_ok_def strict_sorted_iff)

lemma omap_ok_set: "omap_ok m \<Longrightarrow> omap_ok (omap_set k v m)"
  by (induction k v m rule: omap_set.induct) (auto simp: set_keys_omap_set)

lemma omap_ok_erase: "omap_ok m \<Longrightarrow> omap_ok (omap_erase k m)"
  by (auto simp: omap_ok_def omap_erase_def sorted_wrt_map intro: sorted_wrt_filter)

lemma map_of_omap_set: "map_of (omap_set k v m) = (map_of m)(k \<mapsto> v)"
  by (induction k v m rule: omap_set.induct) (auto simp: fun_eq_iff)

lemma map_of_omap_erase: "map_of (omap_erase k m) = (map_of m)(k := None)"
  by (induction m) (auto simp: omap_erase_def fun_eq_iff)

interpretation om: keyed_store map_of omap_set omap_erase omap_ok
  by unfold_locales
    (auto simp: map_of_omap_set map_of_omap_erase omap_ok_set omap_ok_erase)

section \<open>Updating every value in place\<close>

lemma keys_omap_update [simp]: "map fst (omap_update f m) = map fst m"
  by (induction m) (auto simp: omap_update_def)

lemma omap_ok_update [simp]: "omap_ok (omap_update f m) \<longleftrightarrow> omap_ok m"
  by (simp add: omap_ok_def)

lemma map_of_omap_update: "map_of (omap_update f m) k = map_option (f k) (map_of m k)"
  by (induction m) (auto simp: omap_update_def)

lemma omap_find_iff_mem: "omap_ok m \<Longrightarrow> omap_find m k = Some v \<longleftrightarrow> (k, v) \<in> set m"
  by (simp add: omap_ok_distinct map_of_eq_Some_iff)

end
