(* ===== verification/Backend_Types.thy ===== *)
theory Backend_Types
  imports Binary_Float Ordered_Map
begin

text \<open>
  The data of the engine: the classes \<open>BackendServer\<close>, \<open>BackendService\<close>,
  \<open>BackendInfo\<close> and \<open>BackendInfoRequest\<close> of sputnik/, each as a record whose fields bear
  the names of the accessors (field \<open>itsX\<close> with accessor \<open>X()\<close>); and what the engine takes
  from outside the repository: the Boost and libm functions (\<open>platform\<close>) and the
  readings of the reactor, the clock and the process (\<open>env\<close>), both arguments of the
  definitions that use them.
\<close>

section \<open>Backends\<close>

record backend_server =
  Name :: string
  IP :: string
  Port :: int
  Comment :: string
  Load :: f32
  Throttle :: "32 word"

record backend_service =
  Backend :: backend_server
  URI :: string
  LastUpdate :: int
  AllowCache :: bool
  SequenceNumber :: int
  DefinesPrefix :: bool

record backend_info_request =
  reqBackend :: backend_server
  reqName :: string
  reqLastUpdate :: int
  reqSequenceNumber :: int

record backend_info =
  hostName :: string
  port :: int
  load :: f32
  throttle_counter :: "32 word"

definition new_backend_info :: "string \<Rightarrow> int \<Rightarrow> f32 \<Rightarrow> backend_info" where
  "new_backend_info theHostName thePort theLoad =
     \<lparr>hostName = theHostName, port = thePort, load = theLoad, throttle_counter = 0\<rparr>"

text \<open>The identity by which the code compares backends: host name and port.\<close>

type_synonym backend_key = "string \<times> int"

definition info_key :: "backend_info \<Rightarrow> backend_key" where
  "info_key i = (hostName i, port i)"

definition service_key :: "backend_service \<Rightarrow> backend_key" where
  "service_key s = (Name (Backend s), Port (Backend s))"

lemma info_key_new [simp]: "info_key (new_backend_info h p l) = (h, p)"
  by (simp add: info_key_def new_backend_info_def)

text \<open>The key \<open>name + ":" + std::to_string(port)\<close> of the sentinel map and of the sticky hash.\<close>

definition backend_id :: "backend_key \<Rightarrow> string" where
  "backend_id k = fst k @ '':'' @ to_string (snd k)"

lemma backend_id_inj: "backend_id k = backend_id l \<longleftrightarrow> k = l"
proof
  assume "backend_id k = backend_id l"
  then have "fst k @ CHR '':'' # to_string (snd k) = fst l @ CHR '':'' # to_string (snd l)"
    by (simp add: backend_id_def)
  from append_sep_inj [OF this colon_notin_to_string colon_notin_to_string]
  show "k = l" by (simp add: prod_eq_iff)
qed simp

section \<open>The reactor's request status\<close>

text \<open>
  \<open>Reactor::getBackendRequestStatus()\<close> returns by value a map from host to a map from
  port to the number of active requests; \<open>connections[host][port]\<close> on that copy is 0
  where the entry is missing.
\<close>

type_synonym request_status = "string \<rightharpoonup> (int \<rightharpoonup> int)"

definition connection_count :: "request_status \<Rightarrow> string \<Rightarrow> int \<Rightarrow> int" where
  "connection_count connections h p =
     (case connections h of None \<Rightarrow> 0
      | Some ports \<Rightarrow> (case ports p of None \<Rightarrow> 0 | Some n \<Rightarrow> n))"

definition info_count :: "request_status \<Rightarrow> backend_info \<Rightarrow> int" where
  "info_count connections i = connection_count connections (hostName i) (port i)"

definition counts_ok :: "request_status \<Rightarrow> bool" where
  "counts_ok connections \<longleftrightarrow>
     (\<forall>h p. 0 \<le> connection_count connections h p \<and> connection_count connections h p < 2 ^ 31)"

lemma info_count_nonneg: "counts_ok st \<Longrightarrow> 0 \<le> info_count st i"
  by (simp add: counts_ok_def info_count_def)

lemma info_count_less: "counts_ok st \<Longrightarrow> info_count st i < 2 ^ 31"
  by (simp add: counts_ok_def info_count_def)

lemma info_count_key: "info_key i = info_key j \<Longrightarrow> info_count st i = info_count st j"
  by (simp add: info_key_def info_count_def)

section \<open>The HTTP request\<close>

text \<open>What \<open>Spine::HTTP::Request\<close> tells the forwarders: resource, peer address, headers.\<close>

record http_request =
  getResource :: string
  getClientIP :: string
  getHeader :: "string \<Rightarrow> string option"

section \<open>Boost and libm\<close>

record 'g platform =
  starts_with :: "string \<Rightarrow> string \<Rightarrow> bool" \<comment> \<open>\<open>boost::algorithm::starts_with(input, test)\<close>\<close>
  split_any_of :: "string \<Rightarrow> string \<Rightarrow> string list" \<comment> \<open>\<open>split(parts, input, is_any_of(chars))\<close>\<close>
  trim :: "string \<Rightarrow> string" \<comment> \<open>\<open>boost::algorithm::trim\<close>\<close>
  uniform_int :: "int \<Rightarrow> int \<Rightarrow> 'g \<Rightarrow> int \<times> 'g" \<comment> \<open>\<open>uniform_int_distribution{a, b}(generator)\<close>\<close>
  discrete :: "f32 list \<Rightarrow> 'g \<Rightarrow> int \<times> 'g" \<comment> \<open>\<open>discrete_distribution(weights)(generator)\<close>\<close>
  expf :: "f32 \<Rightarrow> f32" \<comment> \<open>\<open>std::exp(float)\<close>\<close>

text \<open>The readings an operation takes while it runs.\<close>

record 'g env =
  requestStatus :: request_status \<comment> \<open>\<open>Reactor::getBackendRequestStatus()\<close>\<close>
  freshGenerator :: 'g \<comment> \<open>\<open>boost::taus88\<close> seeded with \<open>time(nullptr)\<close>\<close>

subsection \<open>Documented behaviour\<close>

definition starts_with_law :: "'g platform \<Rightarrow> bool" where
  "starts_with_law P \<longleftrightarrow> (\<forall>u p. starts_with P u p \<longleftrightarrow> prefix p u)"

definition uniform_law :: "'g platform \<Rightarrow> bool" where
  "uniform_law P \<longleftrightarrow>
     (\<forall>a b g. a \<le> b \<longrightarrow> a \<le> fst (uniform_int P a b g) \<and> fst (uniform_int P a b g) \<le> b)"

text \<open>
  The precondition of \<open>discrete_distribution\<close> (finite, non-negative weights, one of them
  positive) and its contract: an index of the list, of positive weight.
\<close>

definition valid_weights :: "f32 list \<Rightarrow> bool" where
  "valid_weights ws \<longleftrightarrow>
     (\<forall>w \<in> set ws. \<exists>x. w = Fin x \<and> 0 \<le> x) \<and> (\<exists>w \<in> set ws. \<exists>x. w = Fin x \<and> 0 < x)"

definition discrete_law :: "'g platform \<Rightarrow> bool" where
  "discrete_law P \<longleftrightarrow>
     (\<forall>ws g. valid_weights ws \<longrightarrow>
        0 \<le> fst (discrete P ws g) \<and> nat (fst (discrete P ws g)) < length ws \<and>
        (\<exists>x. ws ! nat (fst (discrete P ws g)) = Fin x \<and> 0 < x))"

text \<open>\<open>split\<close> with a one-character separator cuts at every occurrence and drops nothing else.\<close>

fun join_with :: "char \<Rightarrow> string list \<Rightarrow> string" where
  "join_with c [] = []"
| "join_with c [p] = p"
| "join_with c (p # ps) = p @ c # join_with c ps"

lemma join_with_part:
  "part \<in> set parts \<Longrightarrow>
     \<exists>pre post. join_with c parts = pre @ part @ post \<and>
       (pre = [] \<or> last pre = c) \<and> (post = [] \<or> hd post = c)"
proof (induction c parts rule: join_with.induct)
  case (2 c p)
  then show ?case by (intro exI [of _ "[]"]) simp
next
  case (3 c p q ps)
  show ?case
  proof (cases "part = p")
    case True
    then show ?thesis
      by (intro exI [of _ "[]"] exI [of _ "c # join_with c (q # ps)"]) simp
  next
    case False
    with "3" obtain pre post where
      "join_with c (q # ps) = pre @ part @ post" "pre = [] \<or> last pre = c" "post = [] \<or> hd post = c"
      by auto
    then show ?thesis by (intro exI [of _ "p @ c # pre"] exI [of _ post]) auto
  qed
qed simp

definition split_law :: "'g platform \<Rightarrow> bool" where
  "split_law P \<longleftrightarrow>
     (\<forall>s c. (\<forall>part \<in> set (split_any_of P s [c]). c \<notin> set part) \<and>
            s = join_with c (split_any_of P s [c]))"

subsection \<open>A platform that behaves so\<close>

text \<open>
  A concrete platform with these laws, on which the closed instances of the theorems are
  evaluated: the generator is a counter, a uniform draw walks through its range, and a
  weighted draw takes the first positive weight.
\<close>

fun split_at :: "char \<Rightarrow> string \<Rightarrow> string list" where
  "split_at c [] = [[]]"
| "split_at c (x # xs) =
     (if x = c then [] # split_at c xs
      else (case split_at c xs of [] \<Rightarrow> [[x]] | p # ps \<Rightarrow> (x # p) # ps))"

definition is_blank :: "char \<Rightarrow> bool" where
  "is_blank c \<longleftrightarrow> c = CHR '' '' \<or> (9 \<le> (of_char c :: nat) \<and> (of_char c :: nat) \<le> 13)"

fun first_positive :: "f32 list \<Rightarrow> nat" where
  "first_positive [] = 0"
| "first_positive (w # ws) = (if flt (Fin 0) w then 0 else Suc (first_positive ws))"

definition reference_platform :: "nat platform" where
  "reference_platform =
     \<lparr>starts_with = (\<lambda>u p. prefix p u),
      split_any_of = (\<lambda>s cs. split_at (hd cs) s),
      trim = (\<lambda>s. rev (dropWhile is_blank (rev (dropWhile is_blank s)))),
      uniform_int = (\<lambda>a b g. (a + int g mod (b - a + 1), Suc g)),
      discrete = (\<lambda>ws g. (int (first_positive ws), g)),
      expf = (\<lambda>x. case x of Fin y \<Rightarrow> f32_round (exp y) | PInf \<Rightarrow> PInf | NInf \<Rightarrow> Fin 0 | NaN \<Rightarrow> NaN)\<rparr>"

lemma reference_starts_with: "starts_with_law reference_platform"
  by (simp add: starts_with_law_def reference_platform_def)

lemma reference_uniform: "uniform_law reference_platform"
proof -
  have "a + int g mod (b - a + 1) \<le> b" if "a \<le> b" for a b :: int and g
    using pos_mod_bound [of "b - a + 1" "int g"] that by linarith
  then show ?thesis by (simp add: uniform_law_def reference_platform_def)
qed

lemma first_positive_correct:
  "valid_weights ws \<Longrightarrow>
     first_positive ws < length ws \<and> (\<exists>x. ws ! first_positive ws = Fin x \<and> 0 < x)"
proof (induction ws)
  case (Cons w ws)
  then obtain x where "w = Fin x" "0 \<le> x" by (auto simp: valid_weights_def)
  with Cons show ?case by (cases "x = 0") (auto simp: valid_weights_def)
qed (simp add: valid_weights_def)

lemma reference_discrete: "discrete_law reference_platform"
  using first_positive_correct by (simp add: discrete_law_def reference_platform_def)

lemma split_at_parts:
  "(\<forall>part \<in> set (split_at c s). c \<notin> set part) \<and> split_at c s \<noteq> []"
  by (induction s) (auto split: list.splits)

lemma join_with_Nil [simp]: "ps \<noteq> [] \<Longrightarrow> join_with c ([] # ps) = c # join_with c ps"
  by (cases ps) auto

lemma join_with_Cons [simp]: "join_with c ((x # p) # ps) = x # join_with c (p # ps)"
  by (cases ps) auto

lemma split_at_join: "join_with c (split_at c s) = s"
  by (induction s) (auto simp: split_at_parts split: list.splits)

lemma reference_split: "split_law reference_platform"
  using split_at_parts split_at_join by (auto simp: split_law_def reference_platform_def)

end
