(* ===== verification/Rendezvous.thy ===== *)
theory Rendezvous
  imports Sputnik_Prelude
begin

text \<open>
  The selection loop of \<open>StickyForwarder::getBackend\<close> (sputnik/StickyForwarder.cpp): the
  first entry of the highest score among those that are not excluded, kept in the
  variables \<open>bestIndex\<close>, \<open>bestScore\<close> and \<open>first\<close>. The interface \<open>best_pick\<close> states
  what such a selection promises and derives the stability of rendezvous hashing from it.
\<close>

fun hrw_loop ::
  "('a \<Rightarrow> bool) \<Rightarrow> ('a \<Rightarrow> 'w::linorder) \<Rightarrow> nat \<Rightarrow> 'a list \<Rightarrow> nat \<times> 'w \<times> bool \<Rightarrow> nat \<times> 'w \<times> bool" where
  "hrw_loop excluded score i [] st = st"
| "hrw_loop excluded score i (x # xs) (bestIndex, bestScore, first) =
     hrw_loop excluded score (Suc i) xs
       (if excluded x then (bestIndex, bestScore, first)
        else if first \<or> bestScore < score x then (i, score x, False)
        else (bestIndex, bestScore, first))"

definition hrw_pick :: "'w \<Rightarrow> ('a \<Rightarrow> bool) \<Rightarrow> ('a \<Rightarrow> 'w::linorder) \<Rightarrow> 'a list \<Rightarrow> nat" where
  "hrw_pick zero excluded score xs = fst (hrw_loop excluded score 0 xs (0, zero, True))"

section \<open>The interface of a best pick\<close>

text \<open>\<open>i\<close> is the first position of the highest score among the entries not excluded.\<close>

definition is_best :: "('a \<Rightarrow> bool) \<Rightarrow> ('a \<Rightarrow> 'w::linorder) \<Rightarrow> 'a list \<Rightarrow> nat \<Rightarrow> bool" where
  "is_best excluded score xs i \<longleftrightarrow>
     i < length xs \<and> \<not> excluded (xs ! i) \<and>
     (\<forall>j < length xs. \<not> excluded (xs ! j) \<longrightarrow> score (xs ! j) \<le> score (xs ! i)) \<and>
     (\<forall>j < i. \<not> excluded (xs ! j) \<longrightarrow> score (xs ! j) < score (xs ! i))"

locale best_pick =
  fixes pick :: "('a \<Rightarrow> bool) \<Rightarrow> ('a \<Rightarrow> 'w::linorder) \<Rightarrow> 'a list \<Rightarrow> nat"
  assumes pick_best: "\<exists>x \<in> set xs. \<not> excluded x \<Longrightarrow> is_best excluded score xs (pick excluded score xs)"
begin

lemma pick_range: "\<exists>x \<in> set xs. \<not> excluded x \<Longrightarrow> pick excluded score xs < length xs"
  using pick_best by (auto simp: is_best_def)

lemma pick_eligible:
  "\<exists>x \<in> set xs. \<not> excluded x \<Longrightarrow>
     xs ! pick excluded score xs \<in> {x \<in> set xs. \<not> excluded x}"
  using pick_best by (auto simp: is_best_def)

lemma pick_max:
  "x \<in> set xs \<Longrightarrow> \<not> excluded x \<Longrightarrow> score x \<le> score (xs ! pick excluded score xs)"
  using pick_best [of xs excluded score] by (force simp: is_best_def in_set_conv_nth)

text \<open>
  The entries are compared by a key: entries of equal key (a backend listed twice) have
  equal scores. If the scores of the keys differ, the key picked depends only on the set
  of keys that are not excluded: not on their order, their number or the other entries.
\<close>

lemma pick_key_unique:
  assumes keys: "ident ` {x \<in> set xs. \<not> excluded x} = K" "K \<noteq> {}"
    and score: "\<And>x. x \<in> set xs \<Longrightarrow> score x = h (ident x)"
    and max: "k \<in> K" "\<And>l. l \<in> K \<Longrightarrow> l \<noteq> k \<Longrightarrow> h l < h k"
  shows "ident (xs ! pick excluded score xs) = k"
proof -
  from keys have ex: "\<exists>x \<in> set xs. \<not> excluded x" by auto
  let ?w = "xs ! pick excluded score xs"
  have w: "?w \<in> set xs" "ident ?w \<in> K" using pick_eligible [OF ex] keys by auto
  from keys max(1) obtain x where x: "x \<in> set xs" "\<not> excluded x" "ident x = k" by auto
  then have "h k \<le> h (ident ?w)" using pick_max [of x xs excluded score] score w by simp
  with max(2) [OF w(2)] show ?thesis by (meson leD)
qed

lemma pick_key_max:
  assumes keys: "ident ` {x \<in> set xs. \<not> excluded x} = K" "K \<noteq> {}"
    and score: "\<And>x. x \<in> set xs \<Longrightarrow> score x = h (ident x)"
    and inj: "inj_on h K" and l: "l \<in> K" "l \<noteq> ident (xs ! pick excluded score xs)"
  shows "h l < h (ident (xs ! pick excluded score xs))"
proof -
  from keys have ex: "\<exists>x \<in> set xs. \<not> excluded x" by auto
  let ?w = "xs ! pick excluded score xs"
  have w: "?w \<in> set xs" "ident ?w \<in> K" using pick_eligible [OF ex] keys by auto
  from keys l(1) obtain x where x: "x \<in> set xs" "\<not> excluded x" "ident x = l" by auto
  then have "h l \<le> h (ident ?w)" using pick_max [of x xs excluded score] score w by simp
  moreover have "h l \<noteq> h (ident ?w)" using inj l w by (auto dest: inj_onD)
  ultimately show ?thesis by simp
qed

text \<open>
  Growing the set of keys from \<open>K\<close> to \<open>L\<close> moves the pick only to a new key; read from
  right to left, losing keys moves the pick only if the picked key is lost.
\<close>

lemma pick_key_stable:
  assumes xs: "ident ` {x \<in> set xs. \<not> excluded x} = K" "K \<noteq> {}"
    and ys: "ident ` {y \<in> set ys. \<not> excluded' y} = L"
    and score: "\<And>x. x \<in> set xs \<Longrightarrow> score x = h (ident x)"
      "\<And>y. y \<in> set ys \<Longrightarrow> score y = h (ident y)"
    and sub: "K \<subseteq> L" and inj: "inj_on h L"
  shows "ident (ys ! pick excluded' score ys) = ident (xs ! pick excluded score xs) \<or>
         ident (ys ! pick excluded' score ys) \<in> L - K"
proof (cases "ident (ys ! pick excluded' score ys) \<in> K")
  case True
  have "ident (xs ! pick excluded score xs) = ident (ys ! pick excluded' score ys)"
  proof (rule pick_key_unique [where K = K and h = h])
    fix l assume "l \<in> K" "l \<noteq> ident (ys ! pick excluded' score ys)"
    then show "h l < h (ident (ys ! pick excluded' score ys))"
      using pick_key_max [where ident = ident and h = h, OF ys _ score(2) inj, of l] sub xs(2)
      by auto
  qed (use xs score(1) True in auto)
  then show ?thesis by simp
next
  case False
  from xs(2) sub ys have "\<exists>y \<in> set ys. \<not> excluded' y" by auto
  from pick_eligible [OF this, of score] ys False show ?thesis by auto
qed

end

section \<open>The loop provides it\<close>

text \<open>
  Invariant of the loop after the prefix \<open>pre\<close>: either every entry so far was excluded and
  \<open>first\<close> still holds, or \<open>bestIndex\<close> is the best pick of the prefix.
\<close>

definition hrw_inv ::
  "('a \<Rightarrow> bool) \<Rightarrow> ('a \<Rightarrow> 'w::linorder) \<Rightarrow> 'a list \<Rightarrow> nat \<times> 'w \<times> bool \<Rightarrow> bool" where
  "hrw_inv excluded score pre st =
     (case st of (b, s, first) \<Rightarrow>
        if first then \<forall>x \<in> set pre. excluded x
        else is_best excluded score pre b \<and> s = score (pre ! b))"

lemma hrw_inv_step:
  assumes "hrw_inv excluded score pre (b, s, first)"
  shows "hrw_inv excluded score (pre @ [x])
     (if excluded x then (b, s, first)
      else if first \<or> s < score x then (length pre, score x, False)
      else (b, s, first))"
proof (cases "excluded x")
  case True
  with assms show ?thesis
    by (auto simp: hrw_inv_def is_best_def nth_append less_Suc_eq split: if_splits)
next
  case False
  show ?thesis
  proof (cases "first \<or> s < score x")
    case True
    with False assms show ?thesis
      by (fastforce simp: hrw_inv_def is_best_def nth_append less_Suc_eq split: if_splits)
  next
    case not_better: False
    with False assms show ?thesis
      by (auto simp: hrw_inv_def is_best_def nth_append less_Suc_eq)
  qed
qed

lemma hrw_loop_inv:
  "hrw_inv excluded score pre st \<Longrightarrow>
     hrw_inv excluded score (pre @ xs) (hrw_loop excluded score (length pre) xs st)"
proof (induction xs arbitrary: pre st)
  case (Cons x xs)
  obtain b s first where st: "st = (b, s, first)" by (cases st)
  from Cons.IH [OF hrw_inv_step [OF Cons.prems [unfolded st], of x]] show ?case
    by (simp add: st)
qed simp

interpretation hrw: best_pick "hrw_pick zero" for zero
proof
  fix xs :: "'b list" and excluded and score :: "'b \<Rightarrow> 'a"
  assume ex: "\<exists>x \<in> set xs. \<not> excluded x"
  have "hrw_inv excluded score ([] @ xs) (hrw_loop excluded score (length ([] :: 'b list)) xs (0, zero, True))"
    by (rule hrw_loop_inv) (simp add: hrw_inv_def)
  with ex show "is_best excluded score xs (hrw_pick zero excluded score xs)"
    by (auto simp: hrw_pick_def hrw_inv_def split: prod.splits if_splits)
qed

end
