(* ===== verification/Sticky_Forwarder.thy ===== *)
theory Sticky_Forwarder
  imports Backend_Types Rendezvous
begin

unbundle bit_operations_syntax

text \<open>
  The class \<open>StickyForwarder\<close> (sputnik/StickyForwarder.cpp): the affinity key of a request,
  the exclusion of hotspots, and rendezvous hashing of the key over the other backends
  with 64-bit FNV-1a.
\<close>

section \<open>Hashing\<close>

definition kFnvOffset :: "64 word" where
  "kFnvOffset = 14695981039346656037"

definition kFnvPrime :: "64 word" where
  "kFnvPrime = 1099511628211"

definition kConnectionSlack :: int where
  "kConnectionSlack = 4"

definition fnv1a :: "string \<Rightarrow> 64 word \<Rightarrow> 64 word" where
  "fnv1a str seed = foldl (\<lambda>hash c. (hash XOR of_char c) * kFnvPrime) seed str"

section \<open>The key of a request\<close>

fun parseCookie_parts :: "(string \<Rightarrow> string) \<Rightarrow> string \<Rightarrow> string list \<Rightarrow> string" where
  "parseCookie_parts tr name [] = []"
| "parseCookie_parts tr name (p # parts) =
     (let part = tr p
      in case find_char CHR ''='' part of
           Some eq \<Rightarrow> if take eq part = name then drop (Suc eq) part
                      else parseCookie_parts tr name parts
         | None \<Rightarrow> parseCookie_parts tr name parts)"

definition parseCookie :: "'g platform \<Rightarrow> string \<Rightarrow> string \<Rightarrow> string" where
  "parseCookie P header name = parseCookie_parts (trim P) name (split_any_of P header '';'')"

definition cookie_value :: "'g platform \<Rightarrow> string \<Rightarrow> http_request \<Rightarrow> string" where
  "cookie_value P cookieName theRequest =
     (if cookieName = [] then []
      else (case getHeader theRequest ''Cookie'' of
              None \<Rightarrow> []
            | Some cookie \<Rightarrow> parseCookie P cookie cookieName))"

definition effective_ip :: "'g platform \<Rightarrow> http_request \<Rightarrow> string" where
  "effective_ip P theRequest =
     (let ip = (case getHeader theRequest ''X-Forwarded-For'' of
                  None \<Rightarrow> []
                | Some xff \<Rightarrow>
                    trim P (case find_char CHR '','' xff of
                              None \<Rightarrow> xff
                            | Some comma \<Rightarrow> take comma xff))
      in if ip = [] then getClientIP theRequest else ip)"

definition extractKey :: "'g platform \<Rightarrow> string \<Rightarrow> http_request \<Rightarrow> string" where
  "extractKey P cookieName theRequest =
     (let value = cookie_value P cookieName theRequest
      in if value \<noteq> [] then ''c:'' @ value
         else (let userAgent = (case getHeader theRequest ''User-Agent'' of
                                  None \<Rightarrow> [] | Some agent \<Rightarrow> agent)
               in ''u:'' @ effective_ip P theRequest @ ''|'' @ userAgent))"

section \<open>Selecting a backend\<close>

text \<open>\<open>static_cast<int>(x)\<close> truncates; outside the range of \<open>int\<close> it is undefined.\<close>

definition static_cast_int :: "real \<Rightarrow> int option" where
  "static_cast_int x =
     (let t = (if 0 \<le> x then \<lfloor>x\<rfloor> else \<lceil>x\<rceil>)
      in if - (2 ^ 31) \<le> t \<and> t < 2 ^ 31 then Some t else None)"

definition sticky_min_count :: "request_status \<Rightarrow> backend_info list \<Rightarrow> int" where
  "sticky_min_count connections infos =
     foldl min (2 ^ 31 - 1) (map (info_count connections) infos)"

definition sticky_factor :: "f32 \<Rightarrow> f32" where
  "sticky_factor balancingCoefficient =
     (if flt (Fin 1) balancingCoefficient then balancingCoefficient else Fin 2)"

definition sticky_threshold :: "f32 \<Rightarrow> int \<Rightarrow> exn + int" where
  "sticky_threshold balancingCoefficient min_count =
     (case sticky_factor balancingCoefficient of
        Fin factor \<Rightarrow>
          (case static_cast_int (rne 53 1074 (factor * of_int min_count)) of
             None \<Rightarrow> Inl BadCast
           | Some t \<Rightarrow> if t + kConnectionSlack < 2 ^ 31 then Inr (t + kConnectionSlack) else Inl BadCast)
      | _ \<Rightarrow> Inl BadCast)"

definition sticky_score :: "string \<Rightarrow> backend_key \<Rightarrow> 64 word" where
  "sticky_score key k = fnv1a (backend_id k) (fnv1a key kFnvOffset)"

definition sticky_getBackend ::
  "'g platform \<Rightarrow> request_status \<Rightarrow> f32 \<Rightarrow> string \<Rightarrow> backend_info list \<Rightarrow> http_request \<Rightarrow> exn + nat" where
  "sticky_getBackend P connections balancingCoefficient cookieName infos theRequest =
     (if infos = [] then Inl NoBackendsAvailable
      else (case sticky_threshold balancingCoefficient (sticky_min_count connections infos) of
              Inl e \<Rightarrow> Inl e
            | Inr threshold \<Rightarrow>
                Inr (hrw_pick 0
                       (\<lambda>info. threshold < info_count connections info)
                       (\<lambda>info. sticky_score (extractKey P cookieName theRequest) (info_key info))
                       infos)))"

section \<open>The key\<close>

lemma parseCookie_parts_found:
  "parseCookie_parts tr name parts = v \<Longrightarrow> v \<noteq> [] \<Longrightarrow>
     CHR ''='' \<notin> set name \<and> (\<exists>part \<in> set parts. tr part = name @ CHR ''='' # v)"
proof (induction parts)
  case (Cons p parts)
  show ?case
  proof (cases "\<exists>eq. find_char CHR ''='' (tr p) = Some eq \<and> take eq (tr p) = name")
    case True
    then obtain eq where eq: "find_char CHR ''='' (tr p) = Some eq" "take eq (tr p) = name" by auto
    with find_char_split [OF eq(1)] Cons.prems show ?thesis
      by (auto simp: find_char_Some)
  next
    case False
    with Cons show ?thesis by (auto simp: Let_def split: option.splits if_splits)
  qed
qed simp

lemma parseCookie_parts_first:
  "CHR ''='' \<notin> set name \<Longrightarrow>
   (\<And>p w. p \<in> set pre \<Longrightarrow> tr p \<noteq> name @ CHR ''='' # w) \<Longrightarrow> tr q = name @ CHR ''='' # v \<Longrightarrow>
     parseCookie_parts tr name (pre @ q # post) = v"
proof (induction pre)
  case (Cons p pre)
  have "take eq (tr p) \<noteq> name" if "find_char CHR ''='' (tr p) = Some eq" for eq
    using find_char_split [OF that] Cons.prems(2) [of p] by auto
  with Cons show ?case by (auto simp: Let_def split: option.splits)
qed simp

text \<open>
  A non-empty cookie value is only ever read from a part of the Cookie header, between
  semicolons, that is after trimming the whole configured name, an equals sign and the
  value: a cookie named userid is never taken for id.
\<close>

lemma parseCookie_whole_name:
  assumes "split_law P" and "parseCookie P header name = v" and "v \<noteq> []"
  shows "CHR ''='' \<notin> set name \<and>
     (\<exists>pre part post. header = pre @ part @ post \<and> CHR '';'' \<notin> set part \<and>
        (pre = [] \<or> last pre = CHR '';'') \<and> (post = [] \<or> hd post = CHR '';'') \<and>
        trim P part = name @ ''='' @ v)"
proof -
  let ?parts = "split_any_of P header '';''"
  obtain part where part: "CHR ''='' \<notin> set name" "part \<in> set ?parts"
    "trim P part = name @ CHR ''='' # v"
    using parseCookie_parts_found [of "trim P" name ?parts v] assms(2,3)
    by (auto simp: parseCookie_def)
  have semi: "CHR '';'' \<notin> set part" and header: "header = join_with CHR '';'' ?parts"
    using assms(1) part(2) by (auto simp: split_law_def)
  obtain pre post where "header = pre @ part @ post"
    "pre = [] \<or> last pre = CHR '';''" "post = [] \<or> hd post = CHR '';''"
    using join_with_part [OF part(2)] header by metis
  with part semi show ?thesis by auto
qed

text \<open>Its instance for a header with a decoy in front: \<open>userid=7; id=42\<close>.\<close>

definition user_agent :: "http_request \<Rightarrow> string" where
  "user_agent r = (case getHeader r ''User-Agent'' of None \<Rightarrow> [] | Some a \<Rightarrow> a)"

text \<open>
  C33. As soon as one of two requests carries a non-empty affinity cookie, they share a key
  exactly if their cookie values are the same, whatever their addresses and headers are; so a
  request with a cookie never shares the key of one without. Two requests without cookie whose
  effective addresses hold no bar share a key exactly if both address and user agent agree.
  The condition is needed: the address can be the text of a client (X-Forwarded-For), and one
  that holds a bar has the key of another address with another user agent.
\<close>

theorem extractKey_separates:
  "(cookie_value P c r1 \<noteq> [] \<or> cookie_value P c r2 \<noteq> [] \<longrightarrow>
      (extractKey P c r1 = extractKey P c r2 \<longleftrightarrow> cookie_value P c r1 = cookie_value P c r2)) \<and>
   (cookie_value P c r1 = [] \<and> cookie_value P c r2 = [] \<and>
      CHR ''|'' \<notin> set (effective_ip P r1) \<and> CHR ''|'' \<notin> set (effective_ip P r2) \<longrightarrow>
      (extractKey P c r1 = extractKey P c r2 \<longleftrightarrow>
         effective_ip P r1 = effective_ip P r2 \<and> user_agent r1 = user_agent r2)) \<and>
   (cookie_value P c r1 = [] \<and> cookie_value P c r2 = [] \<and>
      effective_ip P r1 = effective_ip P r2 @ ''|'' @ x \<and> user_agent r2 = x @ ''|'' @ user_agent r1 \<longrightarrow>
      extractKey P c r1 = extractKey P c r2)"
proof -
  have key: "extractKey P c r = (if cookie_value P c r \<noteq> [] then ''c:'' @ cookie_value P c r
      else ''u:'' @ effective_ip P r @ CHR ''|'' # user_agent r)" for r
    by (simp add: extractKey_def user_agent_def Let_def)
  have "effective_ip P r1 = effective_ip P r2 \<and> user_agent r1 = user_agent r2"
    if "CHR ''|'' \<notin> set (effective_ip P r1)" "CHR ''|'' \<notin> set (effective_ip P r2)"
      "effective_ip P r1 @ CHR ''|'' # user_agent r1 = effective_ip P r2 @ CHR ''|'' # user_agent r2"
    using append_sep_inj_left [OF that(3,1,2)] .
  then show ?thesis by (auto simp: key)
qed

theorem extractKey_separates_witness:
  "let key = (\<lambda>ip agent cookie. extractKey reference_platform ''sid''
       \<lparr>getResource = ''/wms'', getClientIP = ip,
        getHeader = [''Cookie'' \<mapsto> cookie, ''User-Agent'' \<mapsto> agent]\<rparr>)
   in key ''10.0.0.1'' ''x'' ''sid=7'' = key ''10|0'' ''y'' ''sid=7'' \<and>
      key ''10.0.0.1'' ''x'' ''sid=7'' \<noteq> key ''10.0.0.1'' ''x'' ''sid=8'' \<and>
      key ''10.0.0.1'' ''x'' ''sid=7'' \<noteq> key ''10|0'' ''y'' ''none'' \<and>
      key ''10.0.0.1'' ''x'' ''none'' \<noteq> key ''10.0.0.2'' ''x'' ''none'' \<and>
      key ''10|0'' ''x'' ''none'' = key ''10'' ''0|x'' ''none''"
proof -
  let ?r = "\<lambda>ip agent cookie. \<lparr>getResource = ''/wms'', getClientIP = ip,
      getHeader = [''Cookie'' \<mapsto> cookie, ''User-Agent'' \<mapsto> agent]\<rparr>"
  let ?key = "\<lambda>ip agent cookie. extractKey reference_platform ''sid'' (?r ip agent cookie)"
  have ip: "effective_ip reference_platform (?r ip agent cookie) = ip" for ip agent cookie
    by (simp add: effective_ip_def reference_platform_def is_blank_def)
  have agent: "user_agent (?r ip agent cookie) = agent" for ip agent cookie
    by (simp add: user_agent_def)
  have cookie: "cookie_value reference_platform ''sid'' (?r ip agent ''sid=7'') = ''7''"
    "cookie_value reference_platform ''sid'' (?r ip agent ''sid=8'') = ''8''"
    "cookie_value reference_platform ''sid'' (?r ip agent ''none'') = []" for ip agent
    by (simp_all add: cookie_value_def parseCookie_def reference_platform_def is_blank_def)
  note sep = extractKey_separates [where P = reference_platform and c = "''sid''"]
  have "?key ''10.0.0.1'' ''x'' ''sid=7'' = ?key ''10|0'' ''y'' ''sid=7''"
    using sep [of "?r ''10.0.0.1'' ''x'' ''sid=7''" "?r ''10|0'' ''y'' ''sid=7''"] by (simp add: cookie)
  moreover have "?key ''10.0.0.1'' ''x'' ''sid=7'' \<noteq> ?key ''10.0.0.1'' ''x'' ''sid=8''"
    using sep [of "?r ''10.0.0.1'' ''x'' ''sid=7''" "?r ''10.0.0.1'' ''x'' ''sid=8''"] by (simp add: cookie)
  moreover have "?key ''10.0.0.1'' ''x'' ''sid=7'' \<noteq> ?key ''10|0'' ''y'' ''none''"
    using sep [of "?r ''10.0.0.1'' ''x'' ''sid=7''" "?r ''10|0'' ''y'' ''none''"] by (simp add: cookie)
  moreover have "?key ''10.0.0.1'' ''x'' ''none'' \<noteq> ?key ''10.0.0.2'' ''x'' ''none''"
    using sep [of "?r ''10.0.0.1'' ''x'' ''none''" "?r ''10.0.0.2'' ''x'' ''none''"] by (simp add: cookie ip)
  moreover have "?key ''10|0'' ''x'' ''none'' = ?key ''10'' ''0|x'' ''none''"
    using sep [of "?r ''10|0'' ''x'' ''none''" "?r ''10'' ''0|x'' ''none''" "''0''"] by (simp add: cookie ip agent)
  ultimately show ?thesis unfolding Let_def by blast
qed

section \<open>The hotspot threshold\<close>

lemma sticky_min_count_le:
  "i \<in> set infos \<Longrightarrow> sticky_min_count st infos \<le> info_count st i"
proof -
  have "foldl min m cs \<le> m \<and> (\<forall>c \<in> set cs. foldl min m cs \<le> c)" for m :: int and cs
    by (induction cs arbitrary: m) fastforce+
  then show "i \<in> set infos \<Longrightarrow> ?thesis" by (auto simp: sticky_min_count_def)
qed

lemma sticky_min_count_attained:
  assumes "infos \<noteq> []" and "counts_ok st"
  obtains i where "i \<in> set infos" and "sticky_min_count st infos = info_count st i"
proof -
  have fold: "foldl min m cs = m \<or> foldl min m cs \<in> set cs" for m :: int and cs
    by (induction cs arbitrary: m) (fastforce simp: min_def split: if_splits)+
  consider "sticky_min_count st infos = 2 ^ 31 - 1" | "sticky_min_count st infos \<in> info_count st ` set infos"
    using fold [of "2 ^ 31 - 1" "map (info_count st) infos"] by (auto simp: sticky_min_count_def)
  then show thesis
  proof cases
    case 1
    from assms(1) have hd: "hd infos \<in> set infos" by simp
    with sticky_min_count_le [OF hd, of st] 1 info_count_less [OF assms(2), of "hd infos"] show thesis
      by (intro that [OF hd]) simp
  next
    case 2
    with that show thesis by auto
  qed
qed

lemma sticky_min_count_nonneg:
  assumes "counts_ok st"
  shows "0 \<le> sticky_min_count st infos"
proof (cases "infos = []")
  case False
  then show ?thesis
    using sticky_min_count_attained [OF False assms] info_count_nonneg [OF assms] by metis
qed (simp add: sticky_min_count_def)

lemma sticky_factor_Fin: "sticky_factor c = Fin x \<Longrightarrow> 1 \<le> x"
  by (cases c) (auto simp: sticky_factor_def split: if_splits)

text \<open>The scaled minimum is at least the minimum, so the slack stays on top of it.\<close>

lemma sticky_threshold_ge:
  assumes "sticky_threshold c m = Inr t" and "0 \<le> m" and "m < 2 ^ 31"
  shows "m + kConnectionSlack \<le> t"
proof -
  from assms(1) obtain x u where x: "sticky_factor c = Fin x"
    and u: "static_cast_int (rne 53 1074 (x * of_int m)) = Some u" "t = u + kConnectionSlack"
    by (auto simp: sticky_threshold_def split: f32.splits option.splits if_splits)
  have "of_int m \<le> x * of_int m"
    using sticky_factor_Fin [OF x] assms(2) by (simp add: mult_le_cancel_right1)
  then have "of_int m \<le> rne 53 1074 (x * of_int m)"
    using assms(2,3) by (intro r64.ge_int) auto
  with u(1) assms(2) have "m \<le> u"
    by (auto simp: static_cast_int_def Let_def le_floor_iff split: if_splits)
  with u(2) show ?thesis by simp
qed

lemma sticky_threshold_defined:
  assumes "sticky_factor c = Fin x" and "0 \<le> m" and "x * of_int m \<le> 2 ^ 30"
  shows "\<exists>t. sticky_threshold c m = Inr t"
proof -
  let ?y = "rne 53 1074 (x * of_int m)"
  have "0 \<le> ?y" using sticky_factor_Fin [OF assms(1)] assms(2) by (intro r64.nonneg) simp
  moreover have "?y \<le> of_int (2 ^ 30)" using assms(3) by (intro r64.le_int) auto
  ultimately have "0 \<le> \<lfloor>?y\<rfloor>" "\<lfloor>?y\<rfloor> \<le> 2 ^ 30" by (auto simp: floor_le_iff)
  with \<open>0 \<le> ?y\<close> show ?thesis
    by (simp add: sticky_threshold_def assms(1) static_cast_int_def Let_def kConnectionSlack_def)
qed

section \<open>The selection\<close>

text \<open>The backends that take part in the hashing for a threshold.\<close>

definition eligible :: "request_status \<Rightarrow> int \<Rightarrow> backend_info list \<Rightarrow> backend_key set" where
  "eligible connections threshold infos =
     info_key ` {i \<in> set infos. \<not> threshold < info_count connections i}"

lemma sticky_someone_eligible:
  assumes "infos \<noteq> []" and "counts_ok st"
    and "sticky_threshold c (sticky_min_count st infos) = Inr t"
  shows "\<exists>i \<in> set infos. \<not> t < info_count st i"
proof -
  obtain i where i: "i \<in> set infos" "sticky_min_count st infos = info_count st i"
    using sticky_min_count_attained [OF assms(1,2)] .
  have "info_count st i + kConnectionSlack \<le> t"
    using sticky_threshold_ge [OF assms(3)] i(2) info_count_nonneg [OF assms(2)]
      info_count_less [OF assms(2)] by simp
  with i(1) show ?thesis by (force simp: kConnectionSlack_def)
qed

lemma sticky_getBackend_Inr:
  assumes "sticky_getBackend P st c n infos r = Inr i"
  obtains t where "infos \<noteq> []" and "sticky_threshold c (sticky_min_count st infos) = Inr t"
    and "i = hrw_pick 0 (\<lambda>info. t < info_count st info)
               (\<lambda>info. sticky_score (extractKey P n r) (info_key info)) infos"
  using assms that by (auto simp: sticky_getBackend_def split: if_splits sum.splits)

text \<open>A request without headers, and three idle backends.\<close>

definition sample_request :: http_request where
  "sample_request =
     \<lparr>getResource = ''/wms'', getClientIP = ''10.0.0.1'', getHeader = (\<lambda>h. None)\<rparr>"

definition sample_info :: "string \<Rightarrow> backend_info" where
  "sample_info h = new_backend_info h 80 (Fin 0)"

lemma sample_key: "extractKey reference_platform ''sid'' sample_request = ''u:10.0.0.1|''"
  by (simp add: extractKey_def cookie_value_def effective_ip_def sample_request_def)

lemma sample_scores:
  "sticky_score ''u:10.0.0.1|'' (''a'', 80) = 1048967296531285725"
  "sticky_score ''u:10.0.0.1|'' (''b'', 80) = 8720334576302683978"
  "sticky_score ''u:10.0.0.1|'' (''c'', 80) = 846564722145242591"
  by code_simp+

lemma idle_counts [simp]: "info_count Map.empty i = 0" "counts_ok Map.empty"
  by (simp_all add: info_count_def connection_count_def counts_ok_def)

lemma idle_min_count [simp]: "infos \<noteq> [] \<Longrightarrow> sticky_min_count Map.empty infos = 0"
  using sticky_min_count_attained [of infos Map.empty] by simp metis

lemma idle_threshold [simp]: "sticky_threshold (Fin 2) 0 = Inr 4"
  by (simp add: sticky_threshold_def sticky_factor_def static_cast_int_def kConnectionSlack_def)

lemma idle_eligible [simp]: "eligible Map.empty 4 infos = info_key ` set infos"
  by (simp add: eligible_def)

lemma sample_info_key [simp]: "info_key (sample_info h) = (h, 80)"
  by (simp add: sample_info_def)

lemmas sample_eval = sticky_getBackend_def hrw_pick_def sample_key sample_scores

lemma sticky_in_range:
  assumes "infos \<noteq> []" and "counts_ok st"
    and "sticky_factor c = Fin x" and "x * of_int (sticky_min_count st infos) \<le> 2 ^ 30"
  shows "\<exists>i < length infos. sticky_getBackend P st c n infos r = Inr i"
proof -
  obtain t where t: "sticky_threshold c (sticky_min_count st infos) = Inr t"
    using sticky_threshold_defined [OF assms(3) sticky_min_count_nonneg [OF assms(2)] assms(4)] by auto
  from hrw.pick_range [OF sticky_someone_eligible [OF assms(1,2) t]] t assms(1) show ?thesis
    by (simp add: sticky_getBackend_def)
qed

text \<open>
  C20. With a non-empty backend list, request counts of at most 2^31 - 1 and a scaled
  minimum within 2^30, the sticky forwarder answers an index of its list: a backend within
  the hotspot threshold, of the highest hash score among those within it, the first such.
  The threshold lies at least 4 above the lowest count, so somebody is always within it.
\<close>

theorem sticky_choice:
  assumes "infos \<noteq> []" and "counts_ok st"
    and "sticky_factor c = Fin x" and "x * of_int (sticky_min_count st infos) \<le> 2 ^ 30"
  shows "\<exists>i t. sticky_getBackend P st c n infos r = Inr i \<and>
     sticky_threshold c (sticky_min_count st infos) = Inr t \<and>
     sticky_min_count st infos + 4 \<le> t \<and>
     is_best (\<lambda>info. t < info_count st info)
       (\<lambda>info. sticky_score (extractKey P n r) (info_key info)) infos i"
proof -
  obtain t where t: "sticky_threshold c (sticky_min_count st infos) = Inr t"
    using sticky_threshold_defined [OF assms(3) sticky_min_count_nonneg [OF assms(2)] assms(4)] by auto
  obtain j where "sticky_min_count st infos = info_count st j"
    using sticky_min_count_attained [OF assms(1,2)] .
  then have "sticky_min_count st infos + 4 \<le> t"
    using sticky_threshold_ge [OF t] info_count_nonneg [OF assms(2)] info_count_less [OF assms(2)]
    by (simp add: kConnectionSlack_def)
  with t assms(1) hrw.pick_best [OF sticky_someone_eligible [OF assms(1,2) t]] show ?thesis
    by (simp add: sticky_getBackend_def)
qed

theorem sticky_choice_witness:
  "\<exists>i t. sticky_getBackend reference_platform Map.empty (Fin 2) ''sid''
           [sample_info ''a'', sample_info ''b''] sample_request = Inr i \<and>
     sticky_threshold (Fin 2) 0 = Inr t \<and> 0 + 4 \<le> t \<and>
     is_best (\<lambda>info. t < info_count Map.empty info)
       (\<lambda>info. sticky_score ''u:10.0.0.1|'' (info_key info))
       [sample_info ''a'', sample_info ''b''] i"
  using sticky_choice [of "[sample_info ''a'', sample_info ''b'']" Map.empty "Fin 2" 2
      reference_platform "''sid''" sample_request]
  by (simp add: sticky_factor_def sample_key)

text \<open>Both stability claims are the law of the interface, read at the forwarder.\<close>

lemma sticky_key_stable:
  assumes "sticky_getBackend P st1 c1 n infos1 r1 = Inr i1"
    and "sticky_getBackend P st2 c2 n infos2 r2 = Inr i2"
    and "sticky_threshold c1 (sticky_min_count st1 infos1) = Inr t1"
    and "sticky_threshold c2 (sticky_min_count st2 infos2) = Inr t2"
    and "counts_ok st1" and "extractKey P n r1 = extractKey P n r2"
    and "eligible st1 t1 infos1 \<subseteq> eligible st2 t2 infos2"
    and "inj_on (sticky_score (extractKey P n r1)) (eligible st2 t2 infos2)"
  shows "info_key (infos2 ! i2) = info_key (infos1 ! i1) \<or>
         info_key (infos2 ! i2) \<in> eligible st2 t2 infos2 - eligible st1 t1 infos1"
proof -
  from assms(1,3,5) have "eligible st1 t1 infos1 \<noteq> {}"
    using sticky_someone_eligible [of infos1 st1 c1 t1]
    by (auto simp: eligible_def elim: sticky_getBackend_Inr)
  then show ?thesis
    using hrw.pick_key_stable [of info_key infos1 "\<lambda>i. t1 < info_count st1 i" "eligible st1 t1 infos1"
        infos2 "\<lambda>i. t2 < info_count st2 i" "eligible st2 t2 infos2"
        "\<lambda>i. sticky_score (extractKey P n r1) (info_key i)" "sticky_score (extractKey P n r1)" 0]
      assms by (auto simp: eligible_def elim!: sticky_getBackend_Inr)
qed

text \<open>
  C21. Two frontends that know the same backends within their thresholds, in whatever
  order and however often listed, send a request of the same key to the same backend,
  provided no two of these backends have the same hash score for the key.
\<close>

theorem sticky_frontends_agree:
  assumes "sticky_getBackend P st1 c1 n infos1 r1 = Inr i1"
    and "sticky_getBackend P st2 c2 n infos2 r2 = Inr i2"
    and "sticky_threshold c1 (sticky_min_count st1 infos1) = Inr t1"
    and "sticky_threshold c2 (sticky_min_count st2 infos2) = Inr t2"
    and "counts_ok st1" and "extractKey P n r1 = extractKey P n r2"
    and "eligible st1 t1 infos1 = eligible st2 t2 infos2"
    and "inj_on (sticky_score (extractKey P n r1)) (eligible st1 t1 infos1)"
  shows "info_key (infos1 ! i1) = info_key (infos2 ! i2)"
  using sticky_key_stable [OF assms(1-6)] assms(7,8) by auto

theorem sticky_frontends_agree_witness:
  "info_key ([sample_info ''a'', sample_info ''b''] ! 1) =
   info_key ([sample_info ''b'', sample_info ''a'', sample_info ''b''] ! 0)"
  by (rule sticky_frontends_agree [where P = reference_platform and n = "''sid''" and
        ?st1.0 = Map.empty and ?st2.0 = Map.empty and ?c1.0 = "Fin 2" and ?c2.0 = "Fin 2" and
        ?r1.0 = sample_request and ?r2.0 = sample_request and ?t1.0 = 4 and ?t2.0 = 4])
    (auto simp: sample_eval)

text \<open>
  C22. Rendezvous stability: when one backend joins the eligible ones, a key stays where it
  was or moves to the new backend; read backwards, when one backend is lost, only the keys
  that were pinned to it move.
\<close>

theorem sticky_minimal_remapping:
  assumes "sticky_getBackend P st1 c1 n infos1 r1 = Inr i1"
    and "sticky_getBackend P st2 c2 n infos2 r2 = Inr i2"
    and "sticky_threshold c1 (sticky_min_count st1 infos1) = Inr t1"
    and "sticky_threshold c2 (sticky_min_count st2 infos2) = Inr t2"
    and "counts_ok st1" and "extractKey P n r1 = extractKey P n r2"
    and "eligible st2 t2 infos2 = insert k (eligible st1 t1 infos1)"
    and "inj_on (sticky_score (extractKey P n r1)) (eligible st2 t2 infos2)"
  shows "info_key (infos2 ! i2) = info_key (infos1 ! i1) \<or> info_key (infos2 ! i2) = k"
  using sticky_key_stable [OF assms(1-6)] assms(7,8) by auto

theorem sticky_minimal_remapping_witness:
  "info_key ([sample_info ''a'', sample_info ''b''] ! 1) =
   info_key ([sample_info ''a''] ! 0) \<or>
   info_key ([sample_info ''a'', sample_info ''b''] ! 1) = (''b'', 80)"
  by (rule sticky_minimal_remapping [where P = reference_platform and n = "''sid''" and
        ?st1.0 = Map.empty and ?st2.0 = Map.empty and ?c1.0 = "Fin 2" and ?c2.0 = "Fin 2" and
        ?r1.0 = sample_request and ?r2.0 = sample_request and ?t1.0 = 4 and ?t2.0 = 4])
    (auto simp: sample_eval)

end
