(* ===== verification/Slots.thy ===== *)
theory Slots
  imports Sputnik_Prelude
begin

text \<open>
  The contract between the routing table and a forwarder. Per URI the table keeps a list
  of services, and the forwarder a list of backends of its own; the index the forwarder
  answers is used on the table's list. The table appends to both lists together; where it
  erases the entry at its iterator, the forwarder erases its first entry of the same
  host and port.
\<close>

locale backend_slots =
  fixes slots :: "'f \<Rightarrow> 'k list"
    and add :: "'k \<Rightarrow> 'w \<Rightarrow> 'f \<Rightarrow> 'f"
    and del :: "'k \<Rightarrow> 'f \<Rightarrow> 'f"
  assumes slots_add: "slots (add k w f) = slots f @ [k]"
    and slots_del: "slots (del k f) = remove1 k (slots f)"
begin

text \<open>Both lists always hold the same backends, each as often.\<close>

lemma mset_add:
  "mset (map key xs) = mset (slots f) \<Longrightarrow>
     mset (map key (xs @ [x])) = mset (slots (add (key x) w f))"
  by (simp add: slots_add)

lemma mset_erase_loop:
  "mset (map key xs @ ks) = mset (slots f) \<Longrightarrow>
     erase_loop gone (\<lambda>x f. f) (\<lambda>x. del (key x)) xs f = (ys, f') \<Longrightarrow>
     mset (map key ys @ ks) = mset (slots f')"
proof (induction xs arbitrary: f f' ys ks)
  case (Cons x xs)
  show ?case
  proof (cases "gone x")
    case True
    have "mset (map key xs @ ks) = mset (slots (del (key x) f))"
      by (simp add: slots_del flip: Cons.prems(1))
    from Cons.IH [OF this] Cons.prems(2) True show ?thesis by simp
  next
    case False
    with Cons.prems(2) obtain zs
      where zs: "erase_loop gone (\<lambda>x f. f) (\<lambda>x. del (key x)) xs f = (zs, f')" "ys = x # zs"
      by (auto split: prod.splits)
    have "mset (map key xs @ key x # ks) = mset (slots f)" by (simp flip: Cons.prems(1))
    from Cons.IH [OF this zs(1)] zs(2) show ?thesis by simp
  qed
qed simp

end

text \<open>
  A forwarder whose entries carry data beside the key: a removal takes the first entry of
  the key, so the data of a later entry of the same backend stays with its own position.
\<close>

locale backend_entries =
  fixes entries :: "'f \<Rightarrow> 'e list" and key_of :: "'e \<Rightarrow> 'k" and mk :: "'k \<Rightarrow> 'w \<Rightarrow> 'e"
    and add :: "'k \<Rightarrow> 'w \<Rightarrow> 'f \<Rightarrow> 'f" and del :: "'k \<Rightarrow> 'f \<Rightarrow> 'f"
  assumes entries_add: "entries (add k w f) = entries f @ [mk k w]"
    and entries_del: "entries (del k f) = erase_first (\<lambda>e. key_of e = k) (entries f)"
    and key_mk: "key_of (mk k w) = k"
begin

lemma del_behind:
  assumes "entries f = es @ e # rest" and "key_of e = k" and "k \<notin> key_of ` set es"
  shows "entries (del k f) = es @ rest"
proof -
  have "\<forall>x \<in> set es. \<not> key_of x = k" using assms(3) by auto
  from erase_first_append [OF this] assms(1,2) show ?thesis by (simp add: entries_del)
qed

text \<open>The erase loop keeps any view of the entries in step with that of the table's list.\<close>

lemma view_erase_loop:
  assumes view_key: "\<And>e x. view e = sview x \<Longrightarrow> key_of e = key x"
  shows "entries f = es @ rest \<Longrightarrow> map view rest = map sview xs \<Longrightarrow>
     (\<forall>x \<in> set xs. gone x \<longrightarrow> key x \<notin> key_of ` set es) \<Longrightarrow>
     sorted_wrt (\<lambda>x y. gone y \<longrightarrow> key x = key y \<longrightarrow> gone x) xs \<Longrightarrow>
     erase_loop gone (\<lambda>x f. f) (\<lambda>x. del (key x)) xs f = (ys, f') \<Longrightarrow>
     \<exists>rest'. entries f' = es @ rest' \<and> map view rest' = map sview ys"
proof (induction xs arbitrary: f f' ys es rest)
  case (Cons x xs)
  from Cons.prems(2) obtain e rest1 where rest: "rest = e # rest1" "view e = sview x"
    "map view rest1 = map sview xs" by auto
  have key: "key_of e = key x" by (rule view_key [OF rest(2)])
  show ?case
  proof (cases "gone x")
    case True
    have "entries (del (key x) f) = es @ rest1"
      using Cons.prems(1,3) rest(1) key True by (intro del_behind) auto
    from Cons.IH [OF this rest(3)] Cons.prems(3-5) True show ?thesis by simp
  next
    case False
    with Cons.prems(5) obtain zs
      where zs: "erase_loop gone (\<lambda>x f. f) (\<lambda>x. del (key x)) xs f = (zs, f')" "ys = x # zs"
      by (auto split: prod.splits)
    from Cons.prems(1) rest(1) have "entries f = (es @ [e]) @ rest1" by simp
    moreover have "\<forall>y \<in> set xs. gone y \<longrightarrow> key y \<notin> key_of ` set (es @ [e])"
      using Cons.prems(3,4) False key by force
    moreover have "sorted_wrt (\<lambda>x y. gone y \<longrightarrow> key x = key y \<longrightarrow> gone x) xs"
      using Cons.prems(4) by simp
    ultimately obtain rest' where "entries f' = (es @ [e]) @ rest'" "map view rest' = map sview zs"
      using Cons.IH rest(3) zs(1) by blast
    with zs(2) rest(2) show ?thesis by (intro exI [of _ "e # rest'"]) simp
  qed
qed simp

end

text \<open>Forgetting the data leaves the contract on keys.\<close>

sublocale backend_entries \<subseteq> keys: backend_slots "\<lambda>f. map key_of (entries f)" add del
  by unfold_locales (simp_all add: entries_add entries_del key_mk erase_first_map)

text \<open>A forwarder that also answers an index within its own list, whenever it is ready.\<close>

locale slot_picker = backend_slots slots add del
  for slots :: "'f \<Rightarrow> 'k list" and add :: "'k \<Rightarrow> 'w \<Rightarrow> 'f \<Rightarrow> 'f" and del :: "'k \<Rightarrow> 'f \<Rightarrow> 'f" +
  fixes ready :: "'f \<Rightarrow> bool"
    and pick :: "'q \<Rightarrow> 'f \<Rightarrow> (exn + nat) \<times> 'f"
  assumes pick_range: "ready f \<Longrightarrow> slots f \<noteq> [] \<Longrightarrow> \<exists>i < length (slots f). fst (pick q f) = Inr i"
    and slots_pick: "slots (snd (pick q f)) = slots f"
begin

text \<open>So the index is valid in the list of the table, and names the picked backend if the lists agree.\<close>

lemma pick_in_table:
  assumes "mset (map key xs) = mset (slots f)" and "xs \<noteq> []" and "ready f"
  shows "\<exists>i < length xs. fst (pick q f) = Inr i"
proof -
  have "length xs = length (slots f)"
    using assms(1) by (metis length_map size_mset)
  with pick_range [OF assms(3)] assms(2) show ?thesis by (metis length_0_conv)
qed

lemma pick_names_key:
  assumes "map key xs = slots f" and "xs \<noteq> []" and "ready f"
  shows "\<exists>i < length xs. fst (pick q f) = Inr i \<and> key (xs ! i) = slots f ! i"
  using pick_in_table [of key xs f q] assms by (metis nth_map)

end

end
