(* ===== verification/Forwarders.thy ===== *)
theory Forwarders
  imports Sticky_Forwarder Slots
begin

text \<open>
  The class \<open>BackendForwarder\<close> and its seven strategies (sputnik/*Forwarder.cpp). A
  forwarder is one record; the dynamic class is the field \<open>fwd_mode\<close> (the values of the
  enumeration \<open>ForwardingMode\<close> of sputnik/Services.h) and the virtual methods
  \<open>redistribute\<close>, \<open>rebalance\<close> and \<open>getBackend\<close> dispatch on it. The weights are
  computed in the float arithmetic of \<open>Binary_Float\<close>; the random number generator, the
  distributions drawn from it and \<open>std::exp\<close> belong to the platform.
\<close>

datatype forwarding_mode =
    Random
  | InverseLoad
  | InverseConnections
  | LeastConnections
  | DoubleRandom
  | ExponentialConnections
  | Sticky

record 'g forwarder =
  fwd_mode :: forwarding_mode
  itsGenerator :: 'g
  itsBackendInfos :: "backend_info list"
  itsDistribution :: "f32 list"
  fwdBalancingCoefficient :: f32
  fwdCookieName :: string

text \<open>
  The constructors: \<open>RandomForwarder\<close>, \<open>DoubleRandomForwarder\<close> and
  \<open>LeastConnectionsForwarder\<close> pass 0.0 as coefficient, and a default constructed
  \<open>discrete_distribution\<close> has the single weight 1.
\<close>

definition new_forwarder :: "forwarding_mode \<Rightarrow> f32 \<Rightarrow> string \<Rightarrow> 'g \<Rightarrow> 'g forwarder" where
  "new_forwarder mode balancingCoefficient cookieName g =
     \<lparr>fwd_mode = mode, itsGenerator = g, itsBackendInfos = [], itsDistribution = [Fin 1],
      fwdBalancingCoefficient =
        (case mode of Random \<Rightarrow> Fin 0 | DoubleRandom \<Rightarrow> Fin 0 | LeastConnections \<Rightarrow> Fin 0
         | _ \<Rightarrow> balancingCoefficient),
      fwdCookieName = (case mode of Sticky \<Rightarrow> cookieName | _ \<Rightarrow> [])\<rparr>"

section \<open>Weights\<close>

definition sum_weights :: "f32 list \<Rightarrow> f32" where
  "sum_weights probVec = foldl fadd (Fin 0) probVec"

definition normalise :: "f32 list \<Rightarrow> f32 list" where
  "normalise probVec = map (\<lambda>prob. fdiv prob (sum_weights probVec)) probVec"

definition inverse_weight :: "f32 \<Rightarrow> f32 \<Rightarrow> f32" where
  "inverse_weight a x = fdiv (Fin 1) (fadd (Fin 1) (fmul a x))"

definition inverse_load_weights :: "f32 \<Rightarrow> backend_info list \<Rightarrow> f32 list" where
  "inverse_load_weights a infos =
     normalise (map (\<lambda>info. inverse_weight a (fmax (Fin 1) (load info))) infos)"

definition inverse_connections_weights :: "f32 \<Rightarrow> request_status \<Rightarrow> backend_info list \<Rightarrow> f32 list" where
  "inverse_connections_weights a connections infos =
     normalise (map (\<lambda>info. inverse_weight a (f32_of_int (info_count connections info))) infos)"

definition exponential_connections_weights ::
  "'g platform \<Rightarrow> f32 \<Rightarrow> request_status \<Rightarrow> backend_info list \<Rightarrow> f32 list" where
  "exponential_connections_weights P a connections infos =
     normalise (map (\<lambda>info. expf P (fmul (fneg a) (f32_of_int (info_count connections info)))) infos)"

definition least_min_count :: "request_status \<Rightarrow> backend_info list \<Rightarrow> int" where
  "least_min_count connections infos =
     foldl (\<lambda>min_count count. if min_count < 0 then count else min min_count count) (-1)
       (map (info_count connections) infos)"

definition least_connections_weights :: "request_status \<Rightarrow> backend_info list \<Rightarrow> f32 list" where
  "least_connections_weights connections infos =
     (let min_count = least_min_count connections infos;
          probVec = map (\<lambda>info. if info_count connections info = min_count then Fin 1 else Fin 0) infos
      in if flt (Fin 0) (sum_weights probVec) then normalise probVec else probVec)"

section \<open>The operations\<close>

definition redistribute :: "'g platform \<Rightarrow> request_status \<Rightarrow> 'g forwarder \<Rightarrow> 'g forwarder" where
  "redistribute P connections f =
     (let infos = itsBackendInfos f; a = fwdBalancingCoefficient f
      in case fwd_mode f of
           InverseLoad \<Rightarrow> f\<lparr>itsDistribution := inverse_load_weights a infos\<rparr>
         | InverseConnections \<Rightarrow> f\<lparr>itsDistribution := inverse_connections_weights a connections infos\<rparr>
         | LeastConnections \<Rightarrow> f\<lparr>itsDistribution := least_connections_weights connections infos\<rparr>
         | ExponentialConnections \<Rightarrow>
             f\<lparr>itsDistribution := exponential_connections_weights P a connections infos\<rparr>
         | _ \<Rightarrow> f)"

definition rebalance :: "'g platform \<Rightarrow> request_status \<Rightarrow> 'g forwarder \<Rightarrow> 'g forwarder" where
  "rebalance P connections f =
     (case fwd_mode f of
        InverseConnections \<Rightarrow> redistribute P connections f
      | LeastConnections \<Rightarrow> redistribute P connections f
      | ExponentialConnections \<Rightarrow> redistribute P connections f
      | _ \<Rightarrow> f)"

definition fwd_setBackends ::
  "'g platform \<Rightarrow> request_status \<Rightarrow> backend_info list \<Rightarrow> 'g forwarder \<Rightarrow> 'g forwarder" where
  "fwd_setBackends P connections backends f =
     redistribute P connections (f\<lparr>itsBackendInfos := backends\<rparr>)"

definition fwd_addBackend ::
  "'g platform \<Rightarrow> request_status \<Rightarrow> string \<Rightarrow> int \<Rightarrow> f32 \<Rightarrow> 'g forwarder \<Rightarrow> 'g forwarder" where
  "fwd_addBackend P connections theHostName thePort theLoad f =
     redistribute P connections
       (f\<lparr>itsBackendInfos := itsBackendInfos f @ [new_backend_info theHostName thePort theLoad]\<rparr>)"

definition fwd_removeBackend ::
  "'g platform \<Rightarrow> request_status \<Rightarrow> string \<Rightarrow> int \<Rightarrow> 'g forwarder \<Rightarrow> 'g forwarder" where
  "fwd_removeBackend P connections theHostName thePort f =
     redistribute P connections
       (f\<lparr>itsBackendInfos :=
            erase_first (\<lambda>it. hostName it = theHostName \<and> port it = thePort) (itsBackendInfos f)\<rparr>)"

text \<open>\<open>boost::numeric_cast<std::size_t>\<close> of an \<open>int\<close> throws on a negative value.\<close>

definition numeric_cast_size :: "int \<Rightarrow> exn + nat" where
  "numeric_cast_size n = (if n < 0 then Inl NumericCast else Inr (nat n))"

definition weighted_getBackend ::
  "'g platform \<Rightarrow> request_status \<Rightarrow> 'g forwarder \<Rightarrow> (exn + nat) \<times> 'g forwarder" where
  "weighted_getBackend P connections f =
     (let f' = rebalance P connections f;
          (n, g) = discrete P (itsDistribution f') (itsGenerator f')
      in (numeric_cast_size n, f'\<lparr>itsGenerator := g\<rparr>))"

definition random_getBackend :: "'g platform \<Rightarrow> 'g forwarder \<Rightarrow> (exn + nat) \<times> 'g forwarder" where
  "random_getBackend P f =
     (if itsBackendInfos f = [] then (Inl NoBackendsAvailable, f)
      else (let maxnum = int (length (itsBackendInfos f) - 1);
                (n, g) = uniform_int P 0 maxnum (itsGenerator f)
            in (numeric_cast_size n, f\<lparr>itsGenerator := g\<rparr>)))"

definition double_random_getBackend ::
  "'g platform \<Rightarrow> request_status \<Rightarrow> 'g forwarder \<Rightarrow> (exn + nat) \<times> 'g forwarder" where
  "double_random_getBackend P connections f =
     (if itsBackendInfos f = [] then (Inl NoBackendsAvailable, f)
      else (let maxnum = int (length (itsBackendInfos f) - 1);
                (n1, g1) = uniform_int P 0 maxnum (itsGenerator f)
            in case numeric_cast_size n1 of
                 Inl e \<Rightarrow> (Inl e, f\<lparr>itsGenerator := g1\<rparr>)
               | Inr num1 \<Rightarrow>
                   (let (n2, g2) = uniform_int P 0 maxnum g1
                    in case numeric_cast_size n2 of
                         Inl e \<Rightarrow> (Inl e, f\<lparr>itsGenerator := g2\<rparr>)
                       | Inr num2 \<Rightarrow>
                           (let count1 = info_count connections (itsBackendInfos f ! num1);
                                count2 = info_count connections (itsBackendInfos f ! num2)
                            in (Inr (if count1 \<le> count2 then num1 else num2),
                                f\<lparr>itsGenerator := g2\<rparr>)))))"

definition fwd_getBackend ::
  "'g platform \<Rightarrow> request_status \<Rightarrow> http_request \<Rightarrow> 'g forwarder \<Rightarrow> (exn + nat) \<times> 'g forwarder" where
  "fwd_getBackend P connections theRequest f =
     (case fwd_mode f of
        Random \<Rightarrow> random_getBackend P f
      | DoubleRandom \<Rightarrow> double_random_getBackend P connections f
      | Sticky \<Rightarrow>
          (sticky_getBackend P connections (fwdBalancingCoefficient f) (fwdCookieName f)
             (itsBackendInfos f) theRequest, f)
      | _ \<Rightarrow> weighted_getBackend P connections f)"

section \<open>The list of backends\<close>

definition fwd_keys :: "'g forwarder \<Rightarrow> backend_key list" where
  "fwd_keys f = map info_key (itsBackendInfos f)"

lemma redistribute_fields [simp]:
  "itsBackendInfos (redistribute P st f) = itsBackendInfos f"
  "fwd_mode (redistribute P st f) = fwd_mode f"
  "fwdBalancingCoefficient (redistribute P st f) = fwdBalancingCoefficient f"
  "fwdCookieName (redistribute P st f) = fwdCookieName f"
  "itsGenerator (redistribute P st f) = itsGenerator f"
  by (simp_all add: redistribute_def Let_def split: forwarding_mode.split)

lemma rebalance_fields [simp]:
  "itsBackendInfos (rebalance P st f) = itsBackendInfos f"
  "fwd_mode (rebalance P st f) = fwd_mode f"
  "fwdBalancingCoefficient (rebalance P st f) = fwdBalancingCoefficient f"
  "fwdCookieName (rebalance P st f) = fwdCookieName f"
  "itsGenerator (rebalance P st f) = itsGenerator f"
  by (simp_all add: rebalance_def split: forwarding_mode.split)

lemma fwd_addBackend_fields [simp]:
  "itsBackendInfos (fwd_addBackend P st h p l f) = itsBackendInfos f @ [new_backend_info h p l]"
  "fwd_mode (fwd_addBackend P st h p l f) = fwd_mode f"
  "fwdBalancingCoefficient (fwd_addBackend P st h p l f) = fwdBalancingCoefficient f"
  by (simp_all add: fwd_addBackend_def)

lemma fwd_removeBackend_fields [simp]:
  "itsBackendInfos (fwd_removeBackend P st h p f) =
     erase_first (\<lambda>it. hostName it = h \<and> port it = p) (itsBackendInfos f)"
  "fwd_mode (fwd_removeBackend P st h p f) = fwd_mode f"
  "fwdBalancingCoefficient (fwd_removeBackend P st h p f) = fwdBalancingCoefficient f"
  by (simp_all add: fwd_removeBackend_def)

lemma fwd_getBackend_fields [simp]:
  "itsBackendInfos (snd (fwd_getBackend P st r f)) = itsBackendInfos f"
  "fwd_mode (snd (fwd_getBackend P st r f)) = fwd_mode f"
  "fwdBalancingCoefficient (snd (fwd_getBackend P st r f)) = fwdBalancingCoefficient f"
  by (simp_all add: fwd_getBackend_def random_getBackend_def double_random_getBackend_def
      weighted_getBackend_def Let_def split: forwarding_mode.split prod.split sum.split)

lemma fwd_keys_new [simp]: "fwd_keys (new_forwarder m a c g) = []"
  by (simp add: fwd_keys_def new_forwarder_def)

lemma fwd_keys_add: "fwd_keys (fwd_addBackend P st h p l f) = fwd_keys f @ [(h, p)]"
  by (simp add: fwd_keys_def)

lemma fwd_keys_remove: "fwd_keys (fwd_removeBackend P st h p f) = remove1 (h, p) (fwd_keys f)"
  by (simp add: fwd_keys_def erase_first_map [where k = "(h, p)"] info_key_def)

end
