(* ===== verification/Balancing.thy ===== *)
theory Balancing
  imports Forwarders
begin

text \<open>
  What the load balancing strategies achieve: their weights are a valid argument of
  \<open>discrete_distribution\<close> under stated bounds on the configuration, they prefer less
  loaded backends, and the index they answer lies in their list. The last fact is the law
  of the interface \<open>slot_picker\<close>, which the routing table relies on.
\<close>

section \<open>Weights between 0 and 1\<close>

text \<open>
  The range in which the sum of up to \<open>2 ^ 24\<close> weights neither vanishes nor overflows:
  all weights in [0, 1] and one of them at least \<open>2 ^ (-92)\<close>.
\<close>

definition raw_weights_ok :: "f32 list \<Rightarrow> bool" where
  "raw_weights_ok ws \<longleftrightarrow>
     length ws \<le> 2 ^ 24 \<and> (\<forall>w \<in> set ws. \<exists>x. w = Fin x \<and> 0 \<le> x \<and> x \<le> 1) \<and>
     (\<exists>w \<in> set ws. \<exists>x. w = Fin x \<and> 1 / 2 ^ 92 \<le> x)"

lemma sum_weights_snoc: "sum_weights (ws @ [w]) = fadd (sum_weights ws) w"
  by (simp add: sum_weights_def)

lemma sum_weights_bounds:
  assumes "length ws \<le> 2 ^ 24" and "\<forall>w \<in> set ws. \<exists>x. w = Fin x \<and> 0 \<le> x \<and> x \<le> 1"
  shows "\<exists>s. sum_weights ws = Fin s \<and> 0 \<le> s \<and> s \<le> of_nat (length ws) \<and>
     (\<forall>x. Fin x \<in> set ws \<longrightarrow> 1 / 2 ^ 92 \<le> x \<longrightarrow> 1 / 2 ^ 92 \<le> s)"
  using assms
proof (induction ws rule: rev_induct)
  case Nil
  then show ?case by (simp add: sum_weights_def)
next
  case (snoc w ws)
  then obtain s where s: "sum_weights ws = Fin s" "0 \<le> s" "s \<le> of_nat (length ws)"
    and big: "\<And>x. Fin x \<in> set ws \<Longrightarrow> 1 / 2 ^ 92 \<le> x \<Longrightarrow> 1 / 2 ^ 92 \<le> s" by auto
  from snoc.prems obtain x where x: "w = Fin x" "0 \<le> x" "x \<le> 1" by auto
  have le: "s + x \<le> of_int (int (length ws) + 1)" using s x by simp
  have fin: "f32_round (s + x) = Fin (rne 24 149 (s + x))"
    using s x snoc.prems(1) by (intro f32_round_Fin) auto
  have "rne 24 149 (s + x) \<le> of_int (int (length ws) + 1)"
    using snoc.prems(1) le by (intro r32.le_int) auto
  moreover have "1 / 2 ^ 92 \<le> rne 24 149 (s + x)" if "Fin y \<in> set (ws @ [w])" "1 / 2 ^ 92 \<le> y" for y
  proof -
    from that x have "Fin y \<in> set ws \<or> y = x" by auto
    with that(2) big [of y] s(2) x(2) have "1 / 2 ^ 92 \<le> s + x" by force
    then show ?thesis by (intro r32.ge_power) simp_all
  qed
  moreover have "sum_weights (ws @ [w]) = Fin (rne 24 149 (s + x))"
    using fin by (simp add: sum_weights_snoc s(1) x(1))
  moreover have "0 \<le> rne 24 149 (s + x)" using s x by (intro r32.nonneg) simp
  ultimately show ?case by auto
qed

lemma normalise_nth:
  assumes "raw_weights_ok ws"
  obtains s where "0 < s" and "sum_weights ws = Fin s"
    and "\<And>x. Fin x \<in> set ws \<Longrightarrow> fdiv (Fin x) (sum_weights ws) = Fin (rne 24 149 (x / s))"
    and "\<And>x. 1 / 2 ^ 92 \<le> x \<Longrightarrow> 0 < rne 24 149 (x / s)"
proof -
  obtain s where s: "sum_weights ws = Fin s" "s \<le> of_nat (length ws)" "1 / 2 ^ 92 \<le> s"
    using sum_weights_bounds [of ws] assms by (auto simp: raw_weights_ok_def)
  have "(0 :: real) < 1 / 2 ^ 92" by simp
  with s(3) have pos: "0 < s" by (rule order.strict_trans2 [rotated])
  have "length ws \<le> 2 ^ 24" using assms by (simp add: raw_weights_ok_def)
  then have "of_nat (length ws) \<le> (2 :: real) ^ 24" by simp
  with s(2) have s24: "s \<le> 2 ^ 24" by (rule order.trans)
  show thesis
  proof (rule that [OF pos s(1)])
    fix x assume "Fin x \<in> set ws"
    with assms have x: "0 \<le> x" "x \<le> 1" by (auto simp: raw_weights_ok_def)
    have "x / s \<le> 1 / (1 / 2 ^ 92)" using x s(3) by (intro frac_le) auto
    then have "\<bar>x / s\<bar> \<le> 2 ^ 127" using x pos by simp
    with s(1) pos show "fdiv (Fin x) (sum_weights ws) = Fin (rne 24 149 (x / s))"
      by (simp add: f32_round_Fin)
  next
    fix x :: real assume x: "1 / 2 ^ 92 \<le> x"
    have "(1 / 2 ^ 92) / 2 ^ 24 \<le> x / s" using x s24 pos by (intro frac_le) auto
    then have "1 / 2 ^ 116 \<le> x / s" by simp
    then show "0 < rne 24 149 (x / s)" by (intro r32.positive [of 116]) auto
  qed
qed

lemma normalise_valid:
  assumes "raw_weights_ok ws"
  shows "valid_weights (normalise ws)"
proof -
  obtain s where s: "0 < s"
    "\<And>x. Fin x \<in> set ws \<Longrightarrow> fdiv (Fin x) (sum_weights ws) = Fin (rne 24 149 (x / s))"
    "\<And>x. 1 / 2 ^ 92 \<le> x \<Longrightarrow> 0 < rne 24 149 (x / s)"
    using normalise_nth [OF assms] by metis
  have "\<exists>y. fdiv w (sum_weights ws) = Fin y \<and> 0 \<le> y" if "w \<in> set ws" for w
  proof -
    from assms that obtain x where "w = Fin x" "0 \<le> x" by (auto simp: raw_weights_ok_def)
    with that s(1,2) show ?thesis by (auto intro: r32.nonneg)
  qed
  moreover from assms obtain x where "Fin x \<in> set ws" "1 / 2 ^ 92 \<le> x"
    by (auto simp: raw_weights_ok_def)
  ultimately show ?thesis using s(2,3) by (force simp: valid_weights_def normalise_def)
qed

text \<open>Dividing by the sum keeps the order of the weights.\<close>

lemma normalise_mono:
  assumes "raw_weights_ok ws" and "i < length ws" and "j < length ws"
    and "ws ! i = Fin x" and "ws ! j = Fin y" and "x \<le> y"
  shows "\<exists>u v. normalise ws ! i = Fin u \<and> normalise ws ! j = Fin v \<and> u \<le> v"
proof -
  obtain s where s: "0 < s"
    "\<And>x. Fin x \<in> set ws \<Longrightarrow> fdiv (Fin x) (sum_weights ws) = Fin (rne 24 149 (x / s))"
    using normalise_nth [OF assms(1)] by metis
  have "x / s \<le> y / s" using assms(6) s(1) by (simp add: divide_right_mono)
  from r32.mono [OF this] s(2) assms(2-5) show ?thesis
    by (auto simp: normalise_def) (metis nth_mem)+
qed

section \<open>Inverse weights\<close>

text \<open>
  For a coefficient in [0, 2^60] and a load or count in [0, 2^31], the weight
  \<open>1 / (1 + a * x)\<close> lies in [2^(-92), 1] and does not grow with \<open>x\<close>.
\<close>

definition coefficient_ok :: "f32 \<Rightarrow> bool" where
  "coefficient_ok a \<longleftrightarrow> (\<exists>x. a = Fin x \<and> 0 \<le> x \<and> x \<le> 2 ^ 60)"

lemma inverse_weight_value:
  assumes "0 \<le> a" and "a \<le> 2 ^ 60" and "0 \<le> x" and "x \<le> 2 ^ 31"
  shows "inverse_weight (Fin a) (Fin x) =
           Fin (rne 24 149 (1 / rne 24 149 (1 + rne 24 149 (a * x))))"
    and "1 / 2 ^ 92 \<le> rne 24 149 (1 / rne 24 149 (1 + rne 24 149 (a * x)))"
    and "rne 24 149 (1 / rne 24 149 (1 + rne 24 149 (a * x))) \<le> 1"
    and "1 \<le> rne 24 149 (1 + rne 24 149 (a * x))"
proof -
  have "a * x \<le> 2 ^ 60 * 2 ^ 31" using assms by (intro mult_mono) simp_all
  then have "a * x \<le> 2 ^ 91" by simp
  moreover have "0 \<le> a * x" using assms by simp
  ultimately obtain p where p: "f32_round (a * x) = Fin p" "p = rne 24 149 (a * x)" "0 \<le> p" "p \<le> 2 ^ 91"
    using f32_round_within [of "a * x" 91] by auto
  have "1 + p \<le> 2 ^ 92" "0 \<le> 1 + p" using p(3,4) by simp_all
  then obtain d where d: "f32_round (1 + p) = Fin d" "d = rne 24 149 (1 + p)" "d \<le> 2 ^ 92"
    using f32_round_within [of "1 + p" 92] by auto
  have d1: "1 \<le> d" unfolding d(2) using p(3) by (intro r32.ge_one) simp
  have "1 / 2 ^ 92 \<le> 1 / d" "1 / d \<le> 1" using d1 d(3) by (auto simp: field_simps)
  note w = r32.ge_power [of 92, OF _ this(1), simplified] r32.le_one [OF this(2)]
  have "f32_round (1 / d) = Fin (rne 24 149 (1 / d))"
    using d1 by (intro f32_round_Fin) (simp add: field_simps)
  then show "inverse_weight (Fin a) (Fin x) =
      Fin (rne 24 149 (1 / rne 24 149 (1 + rne 24 149 (a * x))))"
    using p d d1 by (simp add: inverse_weight_def)
  show "1 / 2 ^ 92 \<le> rne 24 149 (1 / rne 24 149 (1 + rne 24 149 (a * x)))"
    "rne 24 149 (1 / rne 24 149 (1 + rne 24 149 (a * x))) \<le> 1"
    "1 \<le> rne 24 149 (1 + rne 24 149 (a * x))"
    using w d1 by (simp_all flip: d(2) p(2))
qed

lemma inverse_weight_antimono:
  assumes "0 \<le> a" and "a \<le> 2 ^ 60" and "0 \<le> x" and "x \<le> y" and "y \<le> 2 ^ 31"
  shows "\<exists>u v. inverse_weight (Fin a) (Fin x) = Fin u \<and> inverse_weight (Fin a) (Fin y) = Fin v \<and> v \<le> u"
proof -
  have "rne 24 149 (1 + rne 24 149 (a * x)) \<le> rne 24 149 (1 + rne 24 149 (a * y))"
    using assms by (intro r32.mono add_left_mono mult_left_mono)
  then have "1 / rne 24 149 (1 + rne 24 149 (a * y)) \<le> 1 / rne 24 149 (1 + rne 24 149 (a * x))"
    using inverse_weight_value(4) [of a x] assms by (intro frac_le) auto
  from r32.mono [OF this] show ?thesis
    using inverse_weight_value(1) [of a x] inverse_weight_value(1) [of a y] assms by auto
qed

lemma f32_of_count:
  assumes "0 \<le> n" and "n < 2 ^ 31"
  shows "f32_of_int n = Fin (rne 24 149 (of_int n)) \<and>
     0 \<le> rne 24 149 (of_int n) \<and> rne 24 149 (of_int n) \<le> 2 ^ 31"
proof -
  have "of_int n \<le> (2 :: real) ^ 31" using assms(2) by simp
  with assms(1) show ?thesis
    using f32_round_within [of "of_int n" 31] by (auto simp: f32_of_int_def)
qed

section \<open>The strategies meet the precondition of the distribution\<close>

definition loads_ok :: "backend_info list \<Rightarrow> bool" where
  "loads_ok infos \<longleftrightarrow>
     (\<forall>i \<in> set infos. load i \<noteq> PInf \<and> (\<forall>x. load i = Fin x \<longrightarrow> x \<le> 2 ^ 31))"

lemma clamped_load:
  assumes "l \<noteq> PInf" and "\<forall>x. l = Fin x \<longrightarrow> x \<le> 2 ^ 31"
  shows "\<exists>x. fmax (Fin 1) l = Fin x \<and> 1 \<le> x \<and> x \<le> 2 ^ 31"
  using assms by (cases l) (auto simp: fmax_def)

lemma inverse_weight_in_range:
  assumes "coefficient_ok a" and "0 \<le> x" and "x \<le> 2 ^ 31"
  shows "\<exists>w. inverse_weight a (Fin x) = Fin w \<and> 1 / 2 ^ 92 \<le> w \<and> w \<le> 1"
  using assms inverse_weight_value [of _ x] by (auto simp: coefficient_ok_def)

lemma raw_weights_okI:
  assumes "infos \<noteq> []" and "length infos \<le> 2 ^ 24"
    and "\<And>i. i \<in> set infos \<Longrightarrow> \<exists>w. weight i = Fin w \<and> 1 / 2 ^ 92 \<le> w \<and> w \<le> 1"
  shows "raw_weights_ok (map weight infos)"
proof -
  have pos: "(0 :: real) \<le> 1 / 2 ^ 92" by simp
  from assms(1) have "hd infos \<in> set infos" by simp
  with assms(3) have "\<exists>w \<in> set (map weight infos). \<exists>x. w = Fin x \<and> 1 / 2 ^ 92 \<le> x"
    by (metis list.set_map image_eqI)
  moreover have "\<exists>x. weight i = Fin x \<and> 0 \<le> x \<and> x \<le> 1" if "i \<in> set infos" for i
    using assms(3) [OF that] pos order.trans by blast
  ultimately show ?thesis using assms(2) by (auto simp: raw_weights_ok_def)
qed

lemma inverse_load_raw:
  assumes "coefficient_ok a" and "loads_ok infos" and "infos \<noteq> []" and "length infos \<le> 2 ^ 24"
  shows "raw_weights_ok (map (\<lambda>info. inverse_weight a (fmax (Fin 1) (load info))) infos)"
proof (rule raw_weights_okI [OF assms(3,4)])
  fix i assume "i \<in> set infos"
  with assms(2) obtain x where "fmax (Fin 1) (load i) = Fin x" "1 \<le> x" "x \<le> 2 ^ 31"
    using clamped_load [of "load i"] by (auto simp: loads_ok_def)
  with inverse_weight_in_range [OF assms(1), of x]
  show "\<exists>w. inverse_weight a (fmax (Fin 1) (load i)) = Fin w \<and> 1 / 2 ^ 92 \<le> w \<and> w \<le> 1" by simp
qed

lemma f32_of_info_count:
  assumes "counts_ok st"
  shows "\<exists>x. f32_of_int (info_count st i) = Fin x \<and> 0 \<le> x \<and> x \<le> 2 ^ 31"
  using f32_of_count [OF info_count_nonneg [OF assms] info_count_less [OF assms]] by blast

lemma inverse_connections_raw:
  assumes "coefficient_ok a" and "counts_ok st" and "infos \<noteq> []" and "length infos \<le> 2 ^ 24"
  shows "raw_weights_ok (map (\<lambda>info. inverse_weight a (f32_of_int (info_count st info))) infos)"
  using f32_of_info_count [OF assms(2)] inverse_weight_in_range [OF assms(1)]
  by (intro raw_weights_okI [OF assms(3,4)]) metis

text \<open>The least connections: the running minimum of non-negative counts is their minimum.\<close>

lemma least_min_count_spec:
  assumes "infos \<noteq> []" and "counts_ok st"
  shows "\<exists>i \<in> set infos. least_min_count st infos = info_count st i"
    and "i \<in> set infos \<Longrightarrow> least_min_count st infos \<le> info_count st i"
proof -
  let ?f = "\<lambda>m c :: int. if m < 0 then c else min m c"
  have fold: "0 \<le> m \<Longrightarrow> \<forall>c \<in> set cs. 0 \<le> c \<Longrightarrow>
      foldl ?f m cs \<in> insert m (set cs) \<and> foldl ?f m cs \<le> m \<and> (\<forall>c \<in> set cs. foldl ?f m cs \<le> c)" for m cs
  proof (induction cs arbitrary: m)
    case (Cons c cs)
    then have "0 \<le> min m c" by simp
    from Cons.IH [OF this] Cons.prems show ?case by (auto simp: min_def split: if_splits)
  qed simp
  obtain j js where infos: "infos = j # js" using assms(1) by (cases infos) auto
  have "0 \<le> info_count st i" for i by (rule info_count_nonneg [OF assms(2)])
  then have *: "least_min_count st infos \<in> insert (info_count st j) (info_count st ` set js)"
    "least_min_count st infos \<le> info_count st j"
    "\<forall>i \<in> set js. least_min_count st infos \<le> info_count st i"
    using fold [of "info_count st j" "map (info_count st) js"]
    by (simp_all add: infos least_min_count_def)
  show "\<exists>i \<in> set infos. least_min_count st infos = info_count st i" using *(1) by (auto simp: infos)
  show "i \<in> set infos \<Longrightarrow> least_min_count st infos \<le> info_count st i" using *(2,3) by (auto simp: infos)
qed

lemma least_connections_weights_spec:
  assumes "infos \<noteq> []" and "length infos \<le> 2 ^ 24" and "counts_ok st"
  shows "valid_weights (least_connections_weights st infos)"
    and "i < length infos \<Longrightarrow> least_connections_weights st infos ! i = Fin x \<Longrightarrow> 0 < x \<Longrightarrow>
           info_count st (infos ! i) = least_min_count st infos"
proof -
  let ?ws = "map (\<lambda>info. if info_count st info = least_min_count st infos then Fin 1 else Fin 0) infos"
  obtain j where j: "j \<in> set infos" "info_count st j = least_min_count st infos"
    using least_min_count_spec(1) [OF assms(1,3)] by auto
  then have one: "Fin 1 \<in> set ?ws" by force
  moreover have "\<exists>x. w = Fin x \<and> 0 \<le> x \<and> x \<le> 1" if "w \<in> set ?ws" for w
    using that by (auto split: if_splits)
  moreover have "(1 :: real) / 2 ^ 92 \<le> 1" by simp
  ultimately have raw: "raw_weights_ok ?ws" using assms(2) unfolding raw_weights_ok_def by (metis length_map)
  obtain s where s: "0 < s" "sum_weights ?ws = Fin s" using normalise_nth [OF raw] by metis
  then have eq: "least_connections_weights st infos = normalise ?ws"
    by (simp add: least_connections_weights_def Let_def)
  with normalise_valid [OF raw] show "valid_weights (least_connections_weights st infos)" by simp
  show "info_count st (infos ! i) = least_min_count st infos"
    if "i < length infos" "least_connections_weights st infos ! i = Fin x" "0 < x"
  proof (rule ccontr)
    assume "info_count st (infos ! i) \<noteq> least_min_count st infos"
    with that(1) have "least_connections_weights st infos ! i = fdiv (Fin 0) (Fin s)"
      unfolding eq by (simp add: normalise_def s(2))
    with that(2,3) s(1) show False by (simp add: f32_round_def)
  qed
qed

section \<open>A forwarder that is ready answers an index of its list\<close>

text \<open>
  The bounds under which each strategy can choose; \<open>InverseLoad\<close> draws from the weights of
  its last \<open>redistribute\<close>, the others of the weighted kind from those of a fresh one.
\<close>

definition platform_ok :: "'g platform \<Rightarrow> bool" where
  "platform_ok P \<longleftrightarrow> uniform_law P \<and> discrete_law P"

definition strategy_ready :: "'g platform \<Rightarrow> request_status \<Rightarrow> 'g forwarder \<Rightarrow> bool" where
  "strategy_ready P st f =
     (let infos = itsBackendInfos f; a = fwdBalancingCoefficient f
      in case fwd_mode f of
           Random \<Rightarrow> True
         | DoubleRandom \<Rightarrow> True
         | LeastConnections \<Rightarrow> True
         | InverseLoad \<Rightarrow> coefficient_ok a \<and> loads_ok infos
         | InverseConnections \<Rightarrow> coefficient_ok a
         | ExponentialConnections \<Rightarrow>
             raw_weights_ok (map (\<lambda>i. expf P (fmul (fneg a) (f32_of_int (info_count st i)))) infos)
         | Sticky \<Rightarrow>
             (\<exists>x. sticky_factor a = Fin x \<and> x * of_int (sticky_min_count st infos) \<le> 2 ^ 30))"

definition fwd_wf :: "'g forwarder \<Rightarrow> bool" where
  "fwd_wf f \<longleftrightarrow>
     (fwd_mode f = InverseLoad \<longrightarrow> itsBackendInfos f \<noteq> [] \<longrightarrow>
        itsDistribution f = inverse_load_weights (fwdBalancingCoefficient f) (itsBackendInfos f))"

definition fwd_ready :: "'g platform \<Rightarrow> request_status \<Rightarrow> 'g forwarder \<Rightarrow> bool" where
  "fwd_ready P st f \<longleftrightarrow>
     platform_ok P \<and> counts_ok st \<and> length (itsBackendInfos f) \<le> 2 ^ 24 \<and> fwd_wf f \<and>
     strategy_ready P st f"

lemma fwd_wf_redistribute [simp, wf_intros]: "fwd_wf (redistribute P st f)"
  by (simp add: fwd_wf_def redistribute_def Let_def split: forwarding_mode.split)

lemma fwd_wf_new [simp, wf_intros]: "fwd_wf (new_forwarder m a c g)"
  by (simp add: fwd_wf_def new_forwarder_def)

lemma fwd_wf_add [simp, wf_intros]: "fwd_wf (fwd_addBackend P st h p l f)"
  by (simp add: fwd_addBackend_def)

lemma fwd_wf_remove [simp, wf_intros]: "fwd_wf (fwd_removeBackend P st h p f)"
  by (simp add: fwd_removeBackend_def)

lemma fwd_wf_set [simp, wf_intros]: "fwd_wf (fwd_setBackends P st b f)"
  by (simp add: fwd_setBackends_def)

lemma fwd_wf_getBackend [wf_intros]: "fwd_wf f \<Longrightarrow> fwd_wf (snd (fwd_getBackend P st r f))"
proof (cases "fwd_mode f = InverseLoad")
  case True
  then show "fwd_wf f \<Longrightarrow> ?thesis"
    by (simp add: fwd_wf_def fwd_getBackend_def weighted_getBackend_def rebalance_def Let_def
        split: prod.split)
qed (simp add: fwd_wf_def)

text \<open>The distribution drawn from, after the optional \<open>rebalance\<close>.\<close>

lemma drawn_weights:
  assumes "fwd_ready P st f" and "itsBackendInfos f \<noteq> []"
    and "fwd_mode f \<in> {InverseLoad, InverseConnections, LeastConnections, ExponentialConnections}"
  shows "valid_weights (itsDistribution (rebalance P st f)) \<and>
     length (itsDistribution (rebalance P st f)) = length (itsBackendInfos f)"
  using assms inverse_load_raw [of "fwdBalancingCoefficient f" "itsBackendInfos f"]
    inverse_connections_raw [of "fwdBalancingCoefficient f" st "itsBackendInfos f"]
    least_connections_weights_spec(1) [of "itsBackendInfos f" st]
  by (auto simp: fwd_ready_def strategy_ready_def Let_def fwd_wf_def rebalance_def redistribute_def
      inverse_load_weights_def inverse_connections_weights_def exponential_connections_weights_def
      least_connections_weights_def normalise_def [symmetric] intro: normalise_valid)
    (auto simp: normalise_def)

lemma discrete_lawD:
  "discrete_law P \<Longrightarrow> valid_weights ws \<Longrightarrow> discrete P ws g = (n, g') \<Longrightarrow>
     0 \<le> n \<and> nat n < length ws \<and> (\<exists>x. ws ! nat n = Fin x \<and> 0 < x)"
  unfolding discrete_law_def by (metis fst_conv)

lemma weighted_getBackend_draws:
  assumes "discrete_law P" and "valid_weights (itsDistribution (rebalance P st f))"
  shows "\<exists>i x. fst (weighted_getBackend P st f) = Inr i \<and>
     i < length (itsDistribution (rebalance P st f)) \<and>
     itsDistribution (rebalance P st f) ! i = Fin x \<and> 0 < x"
proof -
  let ?ws = "itsDistribution (rebalance P st f)"
  obtain n g where draw: "discrete P ?ws (itsGenerator f) = (n, g)" by fastforce
  have n: "0 \<le> n" "nat n < length ?ws" "\<exists>x. ?ws ! nat n = Fin x \<and> 0 < x"
    using discrete_lawD [OF assms draw] by auto
  then have "fst (weighted_getBackend P st f) = Inr (nat n)"
    by (simp add: weighted_getBackend_def Let_def numeric_cast_size_def draw)
  with n show ?thesis by blast
qed

lemma uniform_index:
  assumes "uniform_law P" and "infos \<noteq> []"
  shows "\<exists>i < length infos. numeric_cast_size (fst (uniform_int P 0 (int (length infos - 1)) g)) = Inr i"
proof -
  let ?n = "fst (uniform_int P 0 (int (length infos - 1)) g)"
  have "0 \<le> ?n" "?n \<le> int (length infos - 1)" using assms(1) by (auto simp: uniform_law_def)
  moreover from this assms(2) have "nat ?n < length infos" by (cases infos) auto
  ultimately show ?thesis by (auto simp: numeric_cast_size_def)
qed

lemma random_getBackend_range:
  assumes "uniform_law P" and "itsBackendInfos f \<noteq> []"
  shows "\<exists>i < length (itsBackendInfos f). fst (random_getBackend P f) = Inr i"
  using uniform_index [OF assms, of "itsGenerator f"] assms(2)
  by (auto simp: random_getBackend_def Let_def split: prod.split)

lemma double_random_getBackend_range:
  assumes "uniform_law P" and "itsBackendInfos f \<noteq> []"
  shows "\<exists>i < length (itsBackendInfos f). \<exists>j < length (itsBackendInfos f).
     (let m = int (length (itsBackendInfos f) - 1)
      in numeric_cast_size (fst (uniform_int P 0 m (itsGenerator f))) = Inr i \<and>
         numeric_cast_size (fst (uniform_int P 0 m (snd (uniform_int P 0 m (itsGenerator f))))) = Inr j) \<and>
     fst (double_random_getBackend P st f) =
       Inr (if info_count st (itsBackendInfos f ! i) \<le> info_count st (itsBackendInfos f ! j) then i else j)"
proof -
  let ?infos = "itsBackendInfos f" and ?m = "int (length (itsBackendInfos f) - 1)"
  obtain n1 g1 where 1: "uniform_int P 0 ?m (itsGenerator f) = (n1, g1)" by fastforce
  obtain n2 g2 where 2: "uniform_int P 0 ?m g1 = (n2, g2)" by fastforce
  obtain i where i: "i < length ?infos" "numeric_cast_size n1 = Inr i"
    using uniform_index [OF assms, of "itsGenerator f"] 1 by auto
  obtain j where j: "j < length ?infos" "numeric_cast_size n2 = Inr j"
    using uniform_index [OF assms, of g1] 2 by auto
  have "fst (double_random_getBackend P st f) =
      Inr (if info_count st (?infos ! i) \<le> info_count st (?infos ! j) then i else j)"
    using assms(2) i j by (simp add: double_random_getBackend_def Let_def 1 [simplified One_nat_def] 2 [simplified One_nat_def]
        del: of_nat_diff)
  with 1 2 i j show ?thesis by (auto simp: Let_def)
qed

lemma fwd_getBackend_range:
  assumes ready: "fwd_ready P st f" and ne: "itsBackendInfos f \<noteq> []"
  shows "\<exists>i < length (itsBackendInfos f). fst (fwd_getBackend P st r f) = Inr i"
proof -
  have laws: "uniform_law P" "discrete_law P" "counts_ok st"
    using ready by (simp_all add: fwd_ready_def platform_ok_def)
  consider "fwd_mode f = Random" | "fwd_mode f = DoubleRandom" | "fwd_mode f = Sticky"
    | "fwd_mode f \<in> {InverseLoad, InverseConnections, LeastConnections, ExponentialConnections}"
    by (cases "fwd_mode f") auto
  then show ?thesis
  proof cases
    case 1
    with random_getBackend_range [OF laws(1) ne] show ?thesis by (simp add: fwd_getBackend_def)
  next
    case 2
    with double_random_getBackend_range [OF laws(1) ne, of st] show ?thesis
      by (auto simp: fwd_getBackend_def)
  next
    case 3
    with ready obtain x where "sticky_factor (fwdBalancingCoefficient f) = Fin x"
      "x * of_int (sticky_min_count st (itsBackendInfos f)) \<le> 2 ^ 30"
      by (auto simp: fwd_ready_def strategy_ready_def Let_def)
    from sticky_in_range [OF ne laws(3) this] 3 show ?thesis by (auto simp: fwd_getBackend_def)
  next
    case 4
    then have "fwd_getBackend P st r f = weighted_getBackend P st f" by (auto simp: fwd_getBackend_def)
    with weighted_getBackend_draws [OF laws(2), of st f] drawn_weights [OF ready ne 4]
    show ?thesis by auto
  qed
qed

interpretation fe: backend_entries itsBackendInfos info_key "\<lambda>k. new_backend_info (fst k) (snd k)"
  "\<lambda>k w f. fwd_addBackend P st (fst k) (snd k) w f"
  "\<lambda>k f. fwd_removeBackend P st (fst k) (snd k) f" for P st
  by unfold_locales (simp_all add: info_key_def [abs_def] new_backend_info_def prod_eq_iff)

interpretation fw: slot_picker fwd_keys
  "\<lambda>k w f. fwd_addBackend P st (fst k) (snd k) w f"
  "\<lambda>k f. fwd_removeBackend P st (fst k) (snd k) f"
  "fwd_ready P st" "fwd_getBackend P st" for P st
proof
  show "fwd_keys (fwd_addBackend P st (fst k) (snd k) w f) = fwd_keys f @ [k]" for k w f
    by (simp add: fwd_keys_add)
  show "fwd_keys (fwd_removeBackend P st (fst k) (snd k) f) = remove1 k (fwd_keys f)" for k f
    by (simp add: fwd_keys_remove)
  show "\<exists>i < length (fwd_keys f). fst (fwd_getBackend P st q f) = Inr i"
    if "fwd_ready P st f" "fwd_keys f \<noteq> []" for q f
    using fwd_getBackend_range [OF that(1)] that(2) by (simp add: fwd_keys_def)
  show "fwd_keys (snd (fwd_getBackend P st q f)) = fwd_keys f" for q f
    by (simp add: fwd_keys_def)
qed

section \<open>What the strategies prefer\<close>

text \<open>Two backends, of which \<open>a\<close> has three active connections and \<open>b\<close> none.\<close>

definition sample_status :: request_status where
  "sample_status h = (if h = ''a'' then Some (\<lambda>p. Some 3) else None)"

definition sample_forwarder :: "forwarding_mode \<Rightarrow> nat forwarder" where
  "sample_forwarder mode =
     \<lparr>fwd_mode = mode, itsGenerator = 0, itsBackendInfos = [sample_info ''a'', sample_info ''b''],
      itsDistribution = [], fwdBalancingCoefficient = Fin 2, fwdCookieName = []\<rparr>"

lemma sample_counts [simp]:
  "counts_ok sample_status"
  "info_count sample_status (sample_info ''a'') = 3"
  "info_count sample_status (sample_info ''b'') = 0"
  by (auto simp: counts_ok_def info_count_def connection_count_def sample_status_def sample_info_def
      new_backend_info_def)

lemma sample_forwarder_fields [simp]:
  "fwd_mode (sample_forwarder m) = m"
  "itsBackendInfos (sample_forwarder m) = [sample_info ''a'', sample_info ''b'']"
  "itsGenerator (sample_forwarder m) = 0"
  "fwdBalancingCoefficient (sample_forwarder m) = Fin 2"
  by (simp_all add: sample_forwarder_def)

lemma least_connections_answer:
  assumes "discrete_law P" and "counts_ok st"
    and "fwd_mode f = LeastConnections"
    and "itsBackendInfos f \<noteq> []" and "length (itsBackendInfos f) \<le> 2 ^ 24"
  shows "\<exists>i < length (itsBackendInfos f). fst (fwd_getBackend P st r f) = Inr i \<and>
     (\<forall>j \<in> set (itsBackendInfos f). info_count st (itsBackendInfos f ! i) \<le> info_count st j)"
proof -
  let ?ws = "least_connections_weights st (itsBackendInfos f)"
  have ws: "itsDistribution (rebalance P st f) = ?ws"
    using assms(3) by (simp add: rebalance_def redistribute_def)
  have len: "length ?ws = length (itsBackendInfos f)"
    by (simp add: least_connections_weights_def Let_def normalise_def)
  obtain i x where i: "fst (weighted_getBackend P st f) = Inr i" "i < length (itsBackendInfos f)"
    "?ws ! i = Fin x" "0 < x"
    using weighted_getBackend_draws [OF assms(1), of st f]
      least_connections_weights_spec(1) [OF assms(4,5,2)] by (auto simp: ws len)
  from least_connections_weights_spec(2) [OF assms(4,5,2) i(2-4)]
  have "\<forall>j \<in> set (itsBackendInfos f). info_count st (itsBackendInfos f ! i) \<le> info_count st j"
    using least_min_count_spec(2) [OF assms(4,2)] by simp
  with i assms(3) show ?thesis by (auto simp: fwd_getBackend_def)
qed

text \<open>
  The double random strategy draws two positions of its list and answers the one with
  fewer active connections, the first drawn on a tie.
\<close>

lemma double_random_choice:
  assumes "uniform_law P" and "fwd_mode f = DoubleRandom" and "itsBackendInfos f \<noteq> []"
  shows "\<exists>i < length (itsBackendInfos f). \<exists>j < length (itsBackendInfos f).
     (let m = int (length (itsBackendInfos f) - 1)
      in numeric_cast_size (fst (uniform_int P 0 m (itsGenerator f))) = Inr i \<and>
         numeric_cast_size (fst (uniform_int P 0 m (snd (uniform_int P 0 m (itsGenerator f))))) = Inr j) \<and>
     fst (fwd_getBackend P st r f) =
       Inr (if info_count st (itsBackendInfos f ! j) < info_count st (itsBackendInfos f ! i) then j else i)"
proof -
  have swap: "(if b < a then j else i) = (if a \<le> b then i else j)" for a b :: int and i j :: nat
    by auto
  from double_random_getBackend_range [OF assms(1,3), of st] assms(2) show ?thesis
    unfolding swap by (simp only: fwd_getBackend_def forwarding_mode.case)
qed

text \<open>
  C32. Under the inverse connections strategy a backend with no more active connections
  than another gets at least its probability, rounding included.
\<close>

theorem inverse_connections_prefers:
  assumes "fwd_mode f = InverseConnections" and "coefficient_ok (fwdBalancingCoefficient f)"
    and "counts_ok st" and "length (itsBackendInfos f) \<le> 2 ^ 24"
    and "i < length (itsBackendInfos f)" and "j < length (itsBackendInfos f)"
    and "info_count st (itsBackendInfos f ! i) \<le> info_count st (itsBackendInfos f ! j)"
  shows "\<exists>u v. itsDistribution (redistribute P st f) ! i = Fin u \<and>
     itsDistribution (redistribute P st f) ! j = Fin v \<and> v \<le> u"
proof -
  let ?infos = "itsBackendInfos f" and ?a = "fwdBalancingCoefficient f"
  let ?w = "\<lambda>info. inverse_weight ?a (f32_of_int (info_count st info))"
  obtain a where a: "?a = Fin a" "0 \<le> a" "a \<le> 2 ^ 60" using assms(2) by (auto simp: coefficient_ok_def)
  let ?c = "\<lambda>k. rne 24 149 (of_int (info_count st (?infos ! k)))"
  have c: "f32_of_int (info_count st (?infos ! k)) = Fin (?c k)" "0 \<le> ?c k" "?c k \<le> 2 ^ 31" for k
    using f32_of_count [OF info_count_nonneg [OF assms(3)] info_count_less [OF assms(3)]] by auto
  have "?c i \<le> ?c j" using assms(7) by (intro r32.mono) simp
  with inverse_weight_antimono [OF a(2,3) c(2) _ c(3)] obtain u v
    where uv: "?w (?infos ! i) = Fin u" "?w (?infos ! j) = Fin v" "v \<le> u"
    using a(1) c(1) by metis
  have "raw_weights_ok (map ?w ?infos)"
    using assms(2-5) by (intro inverse_connections_raw) auto
  from normalise_mono [OF this, of j i v u] uv assms(1,5,6) show ?thesis
    by (auto simp: redistribute_def inverse_connections_weights_def)
qed

theorem inverse_connections_prefers_witness:
  "\<exists>u v. itsDistribution (redistribute reference_platform sample_status
             (sample_forwarder InverseConnections)) ! 1 = Fin u \<and>
     itsDistribution (redistribute reference_platform sample_status
             (sample_forwarder InverseConnections)) ! 0 = Fin v \<and> v \<le> u"
  by (rule inverse_connections_prefers) (simp_all add: coefficient_ok_def)

text \<open>
  Under the inverse load strategy a backend whose announced load is no higher than
  that of another gets at least its probability; loads below 1 count as 1.
\<close>

lemma inverse_load_prefers:
  assumes "fwd_mode f = InverseLoad" and "coefficient_ok (fwdBalancingCoefficient f)"
    and "loads_ok (itsBackendInfos f)" and "length (itsBackendInfos f) \<le> 2 ^ 24"
    and "i < length (itsBackendInfos f)" and "j < length (itsBackendInfos f)"
    and "load (itsBackendInfos f ! i) = Fin x" and "load (itsBackendInfos f ! j) = Fin y"
    and "max 1 x \<le> max 1 y"
  shows "\<exists>u v. itsDistribution (redistribute P st f) ! i = Fin u \<and>
     itsDistribution (redistribute P st f) ! j = Fin v \<and> v \<le> u"
proof -
  let ?infos = "itsBackendInfos f" and ?a = "fwdBalancingCoefficient f"
  let ?w = "\<lambda>info. inverse_weight ?a (fmax (Fin 1) (load info))"
  obtain a where a: "?a = Fin a" "0 \<le> a" "a \<le> 2 ^ 60" using assms(2) by (auto simp: coefficient_ok_def)
  have mx: "fmax (Fin 1) (Fin z) = Fin (max 1 z)" for z by (simp add: fmax_def max_def)
  have "?infos ! j \<in> set ?infos" using assms(6) by simp
  with assms(3,8) have "y \<le> 2 ^ 31" unfolding loads_ok_def by blast
  then have "max 1 y \<le> 2 ^ 31" by simp
  moreover have "(0 :: real) \<le> max 1 x" by simp
  ultimately obtain u v
    where uv: "?w (?infos ! i) = Fin u" "?w (?infos ! j) = Fin v" "v \<le> u"
    using inverse_weight_antimono [OF a(2,3) _ assms(9)] unfolding a(1) assms(7,8) mx by blast
  have "raw_weights_ok (map ?w ?infos)"
    using assms(2-5) by (intro inverse_load_raw) auto
  from normalise_mono [OF this, of j i v u] uv assms(1,5,6) show ?thesis
    by (auto simp: redistribute_def inverse_load_weights_def)
qed

section \<open>The exponential strategy divides by zero\<close>

lemma rne_underflow:
  assumes "0 \<le> x" and "x * 2 ^ q < 1 / 2"
  shows "rne p q x = 0"
proof -
  have "0 \<le> x * 2 ^ q" using assms(1) by simp
  with assms(2) have "\<lfloor>x * 2 ^ q\<rfloor> = 0" by linarith
  with assms have "round_grid p (x * 2 ^ q) = 0"
    by (simp add: round_grid_def bits_of_def floorlog_def round_half_even_def)
  with assms(1) show ?thesis by (simp add: rne_def)
qed

lemma exp_130_small: "exp (- 130) * 2 ^ 149 < (1 / 2 :: real)"
proof -
  have "3 / 2 \<le> exp (1 / 2 :: real)" using exp_ge_add_one_self [of "1 / 2"] by simp
  then have "(3 / 2) ^ 260 \<le> exp (1 / 2 :: real) ^ 260" by (rule power_mono) simp
  also have "\<dots> = exp 130" by (simp flip: exp_of_nat_mult)
  finally have "(2 :: real) ^ 150 < exp 130" by (rule order.strict_trans2 [rotated]) (simp add: power_divide)
  then show ?thesis by (simp add: exp_minus field_simps)
qed

text \<open>
  C40. When \<open>std::exp\<close> underflows to zero for every backend, the exponential strategy
  normalises by a zero sum: every probability handed to \<open>discrete_distribution\<close> is NaN.
  (The least connections strategy guards the same division.)
\<close>

theorem exponential_connections_nan:
  assumes "fwd_mode f = ExponentialConnections"
    and "\<forall>i \<in> set (itsBackendInfos f).
      expf P (fmul (fneg (fwdBalancingCoefficient f)) (f32_of_int (info_count st i))) = Fin 0"
  shows "itsDistribution (rebalance P st f) = replicate (length (itsBackendInfos f)) NaN"
proof -
  have zero: "sum_weights (replicate n (Fin 0)) = Fin 0" for n
    by (induction n) (simp_all add: sum_weights_def f32_round_def)
  have "map (\<lambda>i. expf P (fmul (fneg (fwdBalancingCoefficient f)) (f32_of_int (info_count st i))))
      (itsBackendInfos f) = replicate (length (itsBackendInfos f)) (Fin 0)"
    using assms(2) by (simp add: map_replicate_const [symmetric])
  moreover have "normalise (replicate n (Fin 0)) = replicate n NaN" for n
    by (simp add: normalise_def zero inf_signed_def)
  ultimately show ?thesis
    using assms(1) by (simp add: rebalance_def redistribute_def exponential_connections_weights_def)
qed

text \<open>With the default coefficient 2.0, sixty-five active connections on every backend suffice.\<close>

theorem exponential_connections_nan_witness:
  "itsDistribution (rebalance reference_platform (\<lambda>h. Some (\<lambda>p. Some 65))
     (sample_forwarder ExponentialConnections)) = [NaN, NaN]"
proof -
  have "rne 24 149 (- 130) = - 130" using r32.int_exact [of "- 130"] by simp
  then have "f32_round (- 130) = Fin (- 130)" using f32_round_Fin [of "- 130"] by simp
  moreover have "\<bar>exp (- 130 :: real)\<bar> \<le> 1" by simp
  then have "\<bar>exp (- 130 :: real)\<bar> \<le> 2 ^ 127" by (rule order.trans) simp
  then have "f32_round (exp (- 130)) = Fin 0"
    using f32_round_Fin rne_underflow [OF _ exp_130_small] by simp
  ultimately have zero: "expf reference_platform (fmul (fneg (Fin 2)) (f32_of_int 65)) = Fin 0"
    by (simp add: f32_of_int_exact reference_platform_def)
  have count: "info_count (\<lambda>h. Some (\<lambda>p. Some 65)) i = 65" for i
    by (simp add: info_count_def connection_count_def)
  have "itsDistribution (rebalance reference_platform (\<lambda>h. Some (\<lambda>p. Some 65))
      (sample_forwarder ExponentialConnections)) = replicate 2 NaN"
    using exponential_connections_nan [of "sample_forwarder ExponentialConnections" reference_platform
        "\<lambda>h. Some (\<lambda>p. Some 65)"] zero count by (simp add: numeral_2_eq_2)
  then show ?thesis by (simp add: numeral_2_eq_2)
qed

end
