(* ===== verification/Prefix_Map.thy ===== *)
theory Prefix_Map
  imports Backend_Types
begin

text \<open>
  The class \<open>URIPrefixMap\<close> (sputnik/URIPrefixMap.h, .cpp): a map from URI prefixes to the
  set of identifiers \<open>name:port:sequence\<close> of the services that announced them. A prefix
  is registered while its set is not empty; a URI is translated to the first prefix of the
  map, in key order, that it starts with.
\<close>

type_synonym prefix_map = "(string, string set) omap"

definition backend_service_id :: "string \<Rightarrow> backend_service \<Rightarrow> string" where
  "backend_service_id thePrefix backendService =
     Name (Backend backendService) @ '':'' @ to_string (Port (Backend backendService)) @ '':'' @
     to_string (SequenceNumber backendService)"

definition addPrefix :: "string \<Rightarrow> backend_service \<Rightarrow> prefix_map \<Rightarrow> prefix_map" where
  "addPrefix thePrefix backendService m =
     (let id = backend_service_id thePrefix backendService;
          ids = (case omap_find m thePrefix of None \<Rightarrow> {} | Some ids \<Rightarrow> ids)
      in omap_set thePrefix (insert id ids) m)"

definition prefix_removeBackend :: "string \<Rightarrow> backend_service \<Rightarrow> prefix_map \<Rightarrow> prefix_map" where
  "prefix_removeBackend thePrefix backendService m =
     (let id = backend_service_id thePrefix backendService
      in case omap_find m thePrefix of
           None \<Rightarrow> m
         | Some ids \<Rightarrow>
             if id \<in> ids then
               (if ids - {id} = {} then omap_erase thePrefix m
                else omap_set thePrefix (ids - {id}) m)
             else m)"

definition translate :: "'g platform \<Rightarrow> prefix_map \<Rightarrow> string \<Rightarrow> string" where
  "translate P m uri =
     (case List.find (\<lambda>entry. starts_with P uri (fst entry)) m of
        Some entry \<Rightarrow> fst entry
      | None \<Rightarrow> uri)"

section \<open>Identifiers\<close>

lemma backend_service_id_inj:
  "backend_service_id p s = backend_service_id q t \<longleftrightarrow>
     Name (Backend s) = Name (Backend t) \<and> Port (Backend s) = Port (Backend t) \<and>
     SequenceNumber s = SequenceNumber t"
proof
  assume eq: "backend_service_id p s = backend_service_id q t"
  have id: "backend_service_id p s =
      backend_id (Name (Backend s), Port (Backend s)) @ CHR '':'' # to_string (SequenceNumber s)" for p s
    by (simp add: backend_service_id_def backend_id_def)
  from append_sep_inj [OF eq [unfolded id] colon_notin_to_string colon_notin_to_string]
  show "Name (Backend s) = Name (Backend t) \<and> Port (Backend s) = Port (Backend t) \<and>
     SequenceNumber s = SequenceNumber t"
    by (simp add: backend_id_inj)
qed (simp add: backend_service_id_def)

section \<open>The interface of a table of prefixes\<close>

definition ids_of :: "prefix_map \<Rightarrow> string \<Rightarrow> string set" where
  "ids_of m p = (case omap_find m p of None \<Rightarrow> {} | Some ids \<Rightarrow> ids)"

definition prefix_wf :: "prefix_map \<Rightarrow> bool" where
  "prefix_wf m \<longleftrightarrow> omap_ok m \<and> (\<forall>p ids. omap_find m p = Some ids \<longrightarrow> ids \<noteq> {})"

locale prefix_table =
  fixes ids :: "'m \<Rightarrow> string \<Rightarrow> string set"
    and add :: "string \<Rightarrow> 's \<Rightarrow> 'm \<Rightarrow> 'm"
    and del :: "string \<Rightarrow> 's \<Rightarrow> 'm \<Rightarrow> 'm"
    and ident :: "'s \<Rightarrow> string"
    and tr :: "'m \<Rightarrow> string \<Rightarrow> string"
    and ok :: "'m \<Rightarrow> bool"
  assumes ids_add: "ids (add p s m) = (ids m)(p := insert (ident s) (ids m p))"
    and ids_del: "ids (del p s m) = (ids m)(p := ids m p - {ident s})"
    and ok_add: "ok m \<Longrightarrow> ok (add p s m)"
    and ok_del: "ok m \<Longrightarrow> ok (del p s m)"
    and tr_none: "ok m \<Longrightarrow> (\<And>p. prefix p u \<Longrightarrow> ids m p = {}) \<Longrightarrow> tr m u = u"
    and tr_some: "ok m \<Longrightarrow> prefix p u \<Longrightarrow> ids m p \<noteq> {} \<Longrightarrow> ids m (tr m u) \<noteq> {} \<and> prefix (tr m u) p"
begin

text \<open>The translation is the shortest registered prefix, so it depends on the registered prefixes only.\<close>

lemma tr_unique:
  assumes "ok m" and "prefix p u" and "ids m p \<noteq> {}"
    and "\<And>q. prefix q u \<Longrightarrow> ids m q \<noteq> {} \<Longrightarrow> prefix p q"
  shows "tr m u = p"
  using tr_some [OF assms(1-3)] assms(2,4) by (metis prefix_order.antisym prefix_order.order_trans)

lemma tr_cong:
  assumes "ok m" and "ok m'" and "\<And>p. prefix p u \<Longrightarrow> ids m p = {} \<longleftrightarrow> ids m' p = {}"
  shows "tr m u = tr m' u"
proof (cases "\<exists>p. prefix p u \<and> ids m p \<noteq> {}")
  case True
  then obtain p where p: "prefix p u" "ids m p \<noteq> {}" by auto
  have t: "ids m (tr m u) \<noteq> {}" "prefix (tr m u) u"
    using tr_some [OF assms(1) p] p(1) by (auto intro: prefix_order.order_trans)
  show ?thesis
  proof (rule tr_unique [OF assms(2), symmetric])
    show "prefix (tr m u) u" "ids m' (tr m u) \<noteq> {}" using t assms(3) by auto
    show "prefix (tr m u) q" if "prefix q u" "ids m' q \<noteq> {}" for q
      using tr_some [OF assms(1) that(1)] that assms(3) by auto
  qed
next
  case False
  with tr_none [OF assms(1)] tr_none [OF assms(2)] assms(3) show ?thesis by metis
qed

text \<open>Taking one announcement back changes nothing while another one is left.\<close>

lemma tr_del_other:
  "ok m \<Longrightarrow> \<not> ids m p \<subseteq> {ident s} \<Longrightarrow> tr (del p s m) u = tr m u"
  by (rule tr_cong) (auto simp: ids_del ok_del)

lemma tr_add_known: "ok m \<Longrightarrow> ids m p \<noteq> {} \<Longrightarrow> tr (add p s m) u = tr m u"
  by (rule tr_cong) (auto simp: ids_add ok_add)

end

section \<open>The map provides it\<close>

lemma ids_of_add: "ids_of (addPrefix p s m) = (ids_of m)(p := insert (backend_service_id p s) (ids_of m p))"
  by (auto simp: ids_of_def addPrefix_def om.find_put fun_eq_iff split: option.split)

lemma ids_of_remove:
  "ids_of (prefix_removeBackend p s m) = (ids_of m)(p := ids_of m p - {backend_service_id p s})"
  by (auto simp: ids_of_def prefix_removeBackend_def Let_def om.find_put om.find_del fun_eq_iff
      split: option.split)

lemma prefix_wf_Nil [simp, wf_intros]: "prefix_wf []"
  by (simp add: prefix_wf_def)

lemma prefix_remove_Nil [simp]: "prefix_removeBackend p s [] = []"
  by (simp add: prefix_removeBackend_def)

lemma prefix_wf_add [wf_intros]: "prefix_wf m \<Longrightarrow> prefix_wf (addPrefix p s m)"
  by (auto simp: prefix_wf_def addPrefix_def om.find_put om.ok_put)

lemma prefix_wf_remove [wf_intros]: "prefix_wf m \<Longrightarrow> prefix_wf (prefix_removeBackend p s m)"
  by (auto simp: prefix_wf_def prefix_removeBackend_def Let_def om.find_put om.find_del
      om.ok_put om.ok_del split: option.splits if_splits)

lemma ids_of_empty_iff:
  assumes "prefix_wf m"
  shows "ids_of m p = {} \<longleftrightarrow> p \<notin> fst ` set m"
proof (cases "omap_find m p")
  case None
  then show ?thesis by (simp add: ids_of_def) (simp add: map_of_eq_None_iff)
next
  case (Some ids)
  then have "p \<in> fst ` set m" by (metis map_of_eq_None_iff option.distinct(1))
  with Some assms show ?thesis by (simp add: ids_of_def prefix_wf_def)
qed

lemma shorter_prefix_less:
  assumes "prefix q p" and "q \<noteq> p"
  shows "q < (p :: string)"
proof -
  obtain r where "p = q @ r" using assms(1) by (auto simp: prefix_def)
  with assms(2) show ?thesis by (cases r) (auto simp: list_less_def intro: lexord_append_rightI)
qed

lemma translate_cases:
  assumes "starts_with_law P" and "prefix_wf m"
  shows "(\<forall>p. prefix p u \<longrightarrow> ids_of m p = {}) \<and> translate P m u = u \<or>
     ids_of m (translate P m u) \<noteq> {} \<and> prefix (translate P m u) u \<and>
     (\<forall>p. prefix p u \<longrightarrow> ids_of m p \<noteq> {} \<longrightarrow> prefix (translate P m u) p)"
proof (cases "List.find (\<lambda>entry. prefix (fst entry) u) m")
  case None
  then have "\<forall>p. prefix p u \<longrightarrow> p \<notin> fst ` set m" by (auto simp: find_None_iff)
  moreover have "translate P m u = u"
    using None assms(1) by (simp add: translate_def starts_with_law_def)
  ultimately show ?thesis by (simp add: ids_of_empty_iff [OF assms(2)])
next
  case (Some entry)
  then obtain i where i: "i < length m" "prefix (fst (m ! i)) u" "entry = m ! i"
    "\<forall>j < i. \<not> prefix (fst (m ! j)) u"
    by (auto simp: find_Some_iff)
  have tr: "translate P m u = fst (m ! i)"
    using Some assms(1) i(3) by (simp add: translate_def starts_with_law_def)
  have "prefix (fst (m ! i)) p" if p: "prefix p u" "p \<in> fst ` set m" for p
  proof (rule ccontr)
    assume no: "\<not> prefix (fst (m ! i)) p"
    with i(2) p(1) have "prefix p (fst (m ! i))" "p \<noteq> fst (m ! i)"
      by (auto dest: prefix_same_cases)
    then have less: "p < fst (m ! i)" by (rule shorter_prefix_less)
    from p(2) obtain j where j: "j < length m" "p = fst (m ! j)" by (auto simp: in_set_conv_nth)
    have "i < j"
    proof (rule ccontr)
      assume "\<not> i < j"
      with i(4) j(2) p(1) less show False by (cases "j = i") auto
    qed
    with assms(2) j(1) have "fst (m ! i) < fst (m ! j)"
      by (auto simp: prefix_wf_def omap_ok_def sorted_wrt_iff_nth_less)
    with less j(2) show False by simp
  qed
  with i assms(2) show ?thesis by (auto simp: tr ids_of_empty_iff)
qed

interpretation pt: prefix_table ids_of addPrefix prefix_removeBackend "backend_service_id []" "translate P"
  "\<lambda>m. starts_with_law P \<and> prefix_wf m" for P
proof
  have id: "backend_service_id p s = backend_service_id [] s" for p s
    by (simp add: backend_service_id_inj)
  show "ids_of (addPrefix p s m) = (ids_of m)(p := insert (backend_service_id [] s) (ids_of m p))" for p s m
    by (simp add: ids_of_add id [of p])
  show "ids_of (prefix_removeBackend p s m) = (ids_of m)(p := ids_of m p - {backend_service_id [] s})" for p s m
    by (simp add: ids_of_remove id [of p])
  show "starts_with_law P \<and> prefix_wf (addPrefix p s m)" if "starts_with_law P \<and> prefix_wf m" for p s m
    using that by (auto intro: wf_intros)
  show "starts_with_law P \<and> prefix_wf (prefix_removeBackend p s m)" if "starts_with_law P \<and> prefix_wf m" for p s m
    using that by (auto intro: wf_intros)
  show "translate P m u = u" if "starts_with_law P \<and> prefix_wf m" "\<And>p. prefix p u \<Longrightarrow> ids_of m p = {}" for m u
    using translate_cases [of P m u] that by auto
  show "ids_of m (translate P m u) \<noteq> {} \<and> prefix (translate P m u) p"
    if "starts_with_law P \<and> prefix_wf m" "prefix p u" "ids_of m p \<noteq> {}" for m p u
    using translate_cases [of P m u] that by auto
qed

section \<open>Properties\<close>

lemma prefix_take: "prefix q u \<Longrightarrow> n \<le> length q \<Longrightarrow> prefix (take n u) q"
  by (auto simp: prefix_def [of q u] take_is_prefix)

text \<open>
  C31. A URI is translated to the shortest registered prefix it starts with, whatever
  longer ones are registered as well; without any it stays as it is.
\<close>

theorem translate_shortest:
  assumes "starts_with_law P" and "prefix_wf m"
  shows "translate P m u =
     (if \<exists>n \<le> length u. ids_of m (take n u) \<noteq> {}
      then take (LEAST n. n \<le> length u \<and> ids_of m (take n u) \<noteq> {}) u else u)"
proof (cases "\<exists>n \<le> length u. ids_of m (take n u) \<noteq> {}")
  case True
  let ?l = "LEAST n. n \<le> length u \<and> ids_of m (take n u) \<noteq> {}"
  have l: "?l \<le> length u" "ids_of m (take ?l u) \<noteq> {}"
    using LeastI_ex [of "\<lambda>n. n \<le> length u \<and> ids_of m (take n u) \<noteq> {}"] True by auto
  have "translate P m u = take ?l u"
  proof (rule pt.tr_unique)
    show "prefix (take ?l u) q" if "prefix q u" "ids_of m q \<noteq> {}" for q
    proof -
      have q: "q = take (length q) u" "length q \<le> length u"
        using that(1) by (auto simp: prefix_def)
      with that(2) have "length q \<le> length u \<and> ids_of m (take (length q) u) \<noteq> {}" by metis
      then have "?l \<le> length q" by (rule Least_le)
      with that(1) show ?thesis by (rule prefix_take)
    qed
  qed (use assms l in \<open>auto simp: take_is_prefix\<close>)
  with True show ?thesis by simp
next
  case False
  have "translate P m u = u"
  proof (rule pt.tr_none)
    show "ids_of m p = {}" if "prefix p u" for p
    proof -
      from that have "p = take (length p) u" "length p \<le> length u" by (auto simp: prefix_def)
      with False show ?thesis by metis
    qed
  qed (use assms in simp)
  then show ?thesis unfolding if_not_P [OF False] .
qed

theorem translate_shortest_witness:
  "translate reference_platform [(''/edr'', {''a''}), (''/edr/x'', {''b''})] ''/edr/x/y'' = ''/edr''"
proof -
  let ?m = "[(''/edr'', {''a''}), (''/edr/x'', {''b''})]"
  have wf: "prefix_wf ?m" by (auto simp: prefix_wf_def less_char_def split: if_splits)
  have l: "(LEAST n. n \<le> length ''/edr/x/y'' \<and> ids_of ?m (take n ''/edr/x/y'') \<noteq> {}) = 4"
  proof (rule Least_equality)
    fix n assume "n \<le> length ''/edr/x/y'' \<and> ids_of ?m (take n ''/edr/x/y'') \<noteq> {}"
    then show "4 \<le> n" by (cases "n < 4") (auto simp: ids_of_def less_Suc_eq numeral_eq_Suc)
  qed (simp add: ids_of_def)
  have ex: "\<exists>n \<le> length ''/edr/x/y''. ids_of ?m (take n ''/edr/x/y'') \<noteq> {}"
    by (rule exI [of _ 4]) (simp add: ids_of_def)
  from translate_shortest [OF reference_starts_with wf, of "''/edr/x/y''"]
  show ?thesis unfolding if_P [OF ex] l by simp
qed

end
