(* ===== verification/Sentinel.thy ===== *)
theory Sentinel
  imports Sputnik_Prelude
begin

text \<open>
  The class \<open>BackendSentinel\<close> (sputnik/BackendSentinel.h, .cpp): one counter per backend
  of the connections sent to it since it last showed a sign of life. Both fields are
  \<open>unsigned int\<close>, so the increment wraps.
\<close>

record sentinel =
  sentinelThrottle :: "32 word"
  itsCurrentThrottle :: "32 word"

definition new_sentinel :: "32 word \<Rightarrow> sentinel" where
  "new_sentinel theThrottle = \<lparr>sentinelThrottle = theThrottle, itsCurrentThrottle = 0\<rparr>"

definition setAlive :: "sentinel \<Rightarrow> sentinel" where
  "setAlive s = s\<lparr>itsCurrentThrottle := 0\<rparr>"

definition getAlive :: "sentinel \<Rightarrow> bool" where
  "getAlive s =
     (if sentinelThrottle s = 0 then True else itsCurrentThrottle s \<le> sentinelThrottle s)"

definition getCurrentThrottle :: "sentinel \<Rightarrow> 32 word" where
  "getCurrentThrottle s = itsCurrentThrottle s"

definition signalSentConnection :: "sentinel \<Rightarrow> sentinel" where
  "signalSentConnection s = s\<lparr>itsCurrentThrottle := itsCurrentThrottle s + 1\<rparr>"

section \<open>The interface of a health tracker\<close>

text \<open>
  What the routing table relies on: a new tracker and an acknowledged one are alive, and
  a sign of life forgets every connection sent before it.
\<close>

locale health_tracker =
  fixes fresh :: "'t \<Rightarrow> 's" and ack :: "'s \<Rightarrow> 's" and sent :: "'s \<Rightarrow> 's"
    and alive :: "'s \<Rightarrow> bool" and limit :: "'s \<Rightarrow> 't"
  assumes limit_fresh: "limit (fresh t) = t"
    and limit_ack: "limit (ack s) = limit s"
    and limit_sent: "limit (sent s) = limit s"
    and ack_fresh: "ack s = fresh (limit s)"
    and alive_fresh: "alive (fresh t)"
begin

lemma alive_ack [simp]: "alive (ack s)"
  by (simp add: ack_fresh alive_fresh)

lemma limit_sent_pow [simp]: "limit ((sent ^^ n) s) = limit s"
  by (induction n) (auto simp: limit_sent)

lemma ack_forgets [simp]: "ack ((sent ^^ n) s) = ack s"
  by (simp add: ack_fresh)

end

interpretation ht: health_tracker new_sentinel setAlive signalSentConnection getAlive sentinelThrottle
  by unfold_locales
    (simp_all add: new_sentinel_def setAlive_def signalSentConnection_def getAlive_def)

section \<open>Counting\<close>

lemma current_after_signals:
  "itsCurrentThrottle ((signalSentConnection ^^ n) s) = itsCurrentThrottle s + of_nat n"
  by (induction n) (auto simp: signalSentConnection_def)

text \<open>
  A backend that has received n connections since its last sign of life counts as
  alive exactly if its throttle is 0 (no throttling) or the 32-bit count of those
  connections is at most the throttle: it is declared unresponsive by connection number
  throttle + 1, and the count starts again after 2^32 connections.
\<close>

lemma alive_after_signals:
  "getAlive ((signalSentConnection ^^ n) (setAlive s)) \<longleftrightarrow>
     sentinelThrottle s = 0 \<or> n mod 2 ^ 32 \<le> unat (sentinelThrottle s)"
  by (simp add: getAlive_def current_after_signals)
    (simp add: setAlive_def word_le_nat_alt unat_of_nat)

end
