(* ===== verification/Services.thy ===== *)
theory Services
  imports Balancing Prefix_Map Sentinel
begin

text \<open>
  The class \<open>Services\<close> (sputnik/Services.h, .cpp): the routing table of the frontend. It
  maps each URI to the list of the services announced for it and to the forwarder that
  chooses among them, and holds the prefix map, the info requests and one sentinel per
  backend. Every operation is one step here; that threads under the two mutexes of the class
  cannot tell the difference is shown in \<open>Locking\<close> and \<open>Concurrency\<close>. The
  shared pointers are values: the table owns its lists, forwarders and sentinels, and the
  services themselves are never modified after construction.
\<close>

record 'g services =
  itsServicesByURI :: "(string, backend_service list \<times> 'g forwarder) omap"
  itsBackendInfoRequests :: "(string, backend_info_request list) omap"
  itsPrefixMap :: prefix_map
  itsSentinels :: "(string, sentinel) omap"
  itsFwdMode :: forwarding_mode
  itsBalancingCoefficient :: f32
  itsCookieName :: string

definition empty_services :: "'g services" where
  "empty_services =
     \<lparr>itsServicesByURI = [], itsBackendInfoRequests = [], itsPrefixMap = [], itsSentinels = [],
      itsFwdMode = InverseConnections, itsBalancingCoefficient = Fin 2, itsCookieName = []\<rparr>"

section \<open>Forwarding a request\<close>

text \<open>\<open>getService\<close> translates the URI and looks its list up; the list's forwarder chooses.\<close>

definition choose_backend ::
  "'g platform \<Rightarrow> 'g env \<Rightarrow> http_request \<Rightarrow> string \<Rightarrow> 'g services \<Rightarrow>
     (exn + backend_service option) \<times> 'g services" where
  "choose_backend P E theRequest uri_prefix s =
     (case omap_find (itsServicesByURI s) uri_prefix of
        None \<Rightarrow> (Inr None, s)
      | Some (theBackendList, forwarder) \<Rightarrow>
          if theBackendList = [] then (Inr None, s)
          else (case fwd_getBackend P (requestStatus E) theRequest forwarder of
                  (slot, forwarder') \<Rightarrow>
                    (let s' = s\<lparr>itsServicesByURI :=
                                  omap_set uri_prefix (theBackendList, forwarder') (itsServicesByURI s)\<rparr>
                     in case slot of
                          Inl e \<Rightarrow> (Inl e, s')
                        | Inr rndServerSlot \<Rightarrow>
                            if rndServerSlot < length theBackendList
                            then (Inr (Some (theBackendList ! rndServerSlot)), s')
                            else (Inl OutOfRange, s'))))"

lemma choose_unknown: "omap_find (itsServicesByURI s) u = None \<Longrightarrow> choose_backend P E r u s = (Inr None, s)"
  by (simp add: choose_backend_def)

lemma choose_empty: "omap_find (itsServicesByURI s) u = Some ([], f) \<Longrightarrow> choose_backend P E r u s = (Inr None, s)"
  by (simp add: choose_backend_def)

definition getService ::
  "'g platform \<Rightarrow> 'g env \<Rightarrow> http_request \<Rightarrow> 'g services \<Rightarrow>
     (exn + backend_service option) \<times> 'g services" where
  "getService P E theRequest s =
     choose_backend P E theRequest (translate P (itsPrefixMap s) (getResource theRequest)) s"

section \<open>Removing a backend\<close>

text \<open>
  One list of the table: every entry is first reported to the prefix map under \<open>theURI\<close>,
  then kept or erased together with one entry of the forwarder.
\<close>

definition remove_here :: "string \<Rightarrow> int \<Rightarrow> string \<Rightarrow> backend_service \<Rightarrow> bool" where
  "remove_here theHostname thePort theURI it \<longleftrightarrow>
     (Name (Backend it) = theHostname \<and> Port (Backend it) = thePort) \<and>
     (theURI = [] \<or> theURI = URI it)"

definition fwd_retire ::
  "'g platform \<Rightarrow> 'g env \<Rightarrow> backend_service \<Rightarrow> 'g forwarder \<Rightarrow> 'g forwarder" where
  "fwd_retire P E it f =
     fwd_removeBackend P (requestStatus E) (Name (Backend it)) (Port (Backend it)) f"

definition remove_from ::
  "'g platform \<Rightarrow> 'g env \<Rightarrow> string \<Rightarrow> int \<Rightarrow> string \<Rightarrow> backend_service list \<times> 'g forwarder \<Rightarrow> prefix_map \<Rightarrow>
     (backend_service list \<times> 'g forwarder) \<times> prefix_map" where
  "remove_from P E theHostname thePort theURI = (\<lambda>(theList, f) pm.
     case erase_loop (remove_here theHostname thePort theURI)
            (\<lambda>it (pm, f). (prefix_removeBackend theURI it pm, f))
            (\<lambda>it (pm, f). (pm, fwd_retire P E it f)) theList (pm, f) of
       (theList', pm', f') \<Rightarrow> ((theList', f'), pm'))"

fun remove_lists ::
  "'g platform \<Rightarrow> 'g env \<Rightarrow> string \<Rightarrow> int \<Rightarrow> string \<Rightarrow>
     (string, backend_service list \<times> 'g forwarder) omap \<Rightarrow> prefix_map \<Rightarrow>
     (string, backend_service list \<times> 'g forwarder) omap \<times> prefix_map" where
  "remove_lists P E theHostname thePort theURI [] pm = ([], pm)"
| "remove_lists P E theHostname thePort theURI ((uri, entry) # rest) pm =
     (let (entry', pm') = remove_from P E theHostname thePort theURI entry pm;
          (rest', pm'') = remove_lists P E theHostname thePort theURI rest pm'
      in ((uri, entry') # rest', pm''))"

text \<open>With no service left the process kills itself with \<open>SIGKILL\<close> to be restarted.\<close>

datatype fate = Returned bool | Killed

definition removeBackend ::
  "'g platform \<Rightarrow> 'g env \<Rightarrow> string \<Rightarrow> int \<Rightarrow> string \<Rightarrow> 'g services \<Rightarrow> fate \<times> 'g services" where
  "removeBackend P E theHostname thePort theURI s =
     (let (lists, pm) = remove_lists P E theHostname thePort theURI (itsServicesByURI s) (itsPrefixMap s);
          s' = s\<lparr>itsServicesByURI := lists, itsPrefixMap := pm\<rparr>
      in if \<exists>(uri, theList, f) \<in> set lists. theList \<noteq> [] then (Returned True, s') else (Killed, s'))"

section \<open>Sentinels\<close>

definition queryBackendAlive :: "string \<Rightarrow> int \<Rightarrow> 'g services \<Rightarrow> bool" where
  "queryBackendAlive theHostName thePort s =
     (case omap_find (itsSentinels s) (backend_id (theHostName, thePort)) of
        Some sentinel \<Rightarrow> getAlive sentinel
      | None \<Rightarrow> False)"

definition setBackendAlive :: "string \<Rightarrow> int \<Rightarrow> 'g services \<Rightarrow> 'g services" where
  "setBackendAlive theHostName thePort s =
     (let sname = backend_id (theHostName, thePort)
      in case omap_find (itsSentinels s) sname of
           Some sentinel \<Rightarrow> s\<lparr>itsSentinels := omap_set sname (setAlive sentinel) (itsSentinels s)\<rparr>
         | None \<Rightarrow> s)"

definition signalBackendConnection :: "string \<Rightarrow> int \<Rightarrow> 'g services \<Rightarrow> 'g services" where
  "signalBackendConnection theHostName thePort s =
     (let sname = backend_id (theHostName, thePort)
      in case omap_find (itsSentinels s) sname of
           Some sentinel \<Rightarrow>
             s\<lparr>itsSentinels := omap_set sname (signalSentConnection sentinel) (itsSentinels s)\<rparr>
         | None \<Rightarrow> s)"

section \<open>Pruning what the last round did not confirm\<close>

definition prune_list ::
  "'g platform \<Rightarrow> 'g env \<Rightarrow> int \<Rightarrow> backend_service list \<times> 'g forwarder \<Rightarrow>
     backend_service list \<times> 'g forwarder" where
  "prune_list P E sequence = (\<lambda>(theList, f).
     erase_loop (\<lambda>it. SequenceNumber it \<noteq> sequence) (\<lambda>it f. f) (fwd_retire P E) theList f)"

definition prune_requests :: "int \<Rightarrow> backend_info_request list \<Rightarrow> backend_info_request list" where
  "prune_requests sequence requestList =
     fst (erase_loop (\<lambda>it. reqSequenceNumber it \<noteq> sequence) (\<lambda>it u. u) (\<lambda>it u. u) requestList ())"

lemma prune_requests_filter [simp]:
  "prune_requests sequence = filter (\<lambda>it. reqSequenceNumber it = sequence)"
  by (simp add: prune_requests_def fun_eq_iff)

definition latestSequence :: "'g platform \<Rightarrow> 'g env \<Rightarrow> int \<Rightarrow> 'g services \<Rightarrow> bool \<times> 'g services" where
  "latestSequence P E sequence s =
     (True,
      s\<lparr>itsServicesByURI := omap_update (\<lambda>uri. prune_list P E sequence) (itsServicesByURI s),
        itsBackendInfoRequests :=
          omap_update (\<lambda>name. prune_requests sequence) (itsBackendInfoRequests s)\<rparr>)"

section \<open>Adding a service\<close>

definition add_sentinel :: "string \<Rightarrow> 32 word \<Rightarrow> (string, sentinel) omap \<Rightarrow> (string, sentinel) omap" where
  "add_sentinel sname theThrottle sentinels =
     (case omap_find sentinels sname of
        None \<Rightarrow> omap_set sname (new_sentinel theThrottle) sentinels
      | Some old \<Rightarrow> omap_set sname (new_sentinel theThrottle) (omap_erase sname sentinels))"

definition add_to_list ::
  "'g platform \<Rightarrow> 'g env \<Rightarrow> backend_service \<Rightarrow> string \<Rightarrow> f32 \<Rightarrow> 'g services \<Rightarrow>
     (string, backend_service list \<times> 'g forwarder) omap" where
  "add_to_list P E svc theFrontendURI theLoad s =
     (let add = fwd_addBackend P (requestStatus E) (Name (Backend svc)) (Port (Backend svc)) theLoad
      in case omap_find (itsServicesByURI s) theFrontendURI of
           Some (theList, forwarder) \<Rightarrow>
             omap_set theFrontendURI (theList @ [svc], add forwarder) (itsServicesByURI s)
         | None \<Rightarrow>
             omap_set theFrontendURI
               ([svc], add (new_forwarder (itsFwdMode s) (itsBalancingCoefficient s) (itsCookieName s)
                              (freshGenerator E)))
               (itsServicesByURI s))"

definition addService ::
  "'g platform \<Rightarrow> 'g env \<Rightarrow> backend_service option \<Rightarrow> string \<Rightarrow> f32 \<Rightarrow> 32 word \<Rightarrow> 'g services \<Rightarrow>
     bool \<times> 'g services" where
  "addService P E theBackendService theFrontendURI theLoad theThrottle s =
     (case theBackendService of
        None \<Rightarrow> (False, s)
      | Some svc \<Rightarrow>
          (True,
           s\<lparr>itsPrefixMap :=
               (if DefinesPrefix svc then addPrefix theFrontendURI svc (itsPrefixMap s)
                else itsPrefixMap s),
             itsServicesByURI := add_to_list P E svc theFrontendURI theLoad s,
             itsSentinels := add_sentinel (backend_id (service_key svc)) theThrottle (itsSentinels s)\<rparr>))"

definition addBackendInfoRequest ::
  "backend_info_request option \<Rightarrow> 'g services \<Rightarrow> bool \<times> 'g services" where
  "addBackendInfoRequest theRequest s =
     (case theRequest of
        None \<Rightarrow> (False, s)
      | Some req \<Rightarrow>
          (True,
           s\<lparr>itsBackendInfoRequests :=
               (case omap_find (itsBackendInfoRequests s) (reqName req) of
                  Some requestList \<Rightarrow>
                    omap_set (reqName req) (requestList @ [req]) (itsBackendInfoRequests s)
                | None \<Rightarrow> omap_set (reqName req) [req] (itsBackendInfoRequests s))\<rparr>))"

section \<open>Configuration\<close>

definition forwarding_mode_of :: "string \<Rightarrow> exn + forwarding_mode" where
  "forwarding_mode_of theMode =
     (if theMode = ''inverseload'' then Inr InverseLoad
      else if theMode = ''random'' then Inr Random
      else if theMode = ''doublerandom'' then Inr DoubleRandom
      else if theMode = ''inverseconnections'' then Inr InverseConnections
      else if theMode = ''leastconnections'' then Inr LeastConnections
      else if theMode = ''exponentialconnections'' then Inr ExponentialConnections
      else if theMode = ''sticky'' then Inr Sticky
      else Inl (UnknownForwardingMode theMode))"

definition setForwarding :: "string \<Rightarrow> f32 \<Rightarrow> string \<Rightarrow> 'g services \<Rightarrow> exn + 'g services" where
  "setForwarding theMode balancingCoefficient cookieName s =
     (case forwarding_mode_of theMode of
        Inl e \<Rightarrow> Inl e
      | Inr mode \<Rightarrow>
          Inr (s\<lparr>itsFwdMode := mode, itsBalancingCoefficient := balancingCoefficient,
                 itsCookieName := cookieName\<rparr>))"

end
