(* ===== verification/Routing.thy ===== *)
theory Routing
  imports Services
begin

text \<open>
  The correctness of the routing table: its well-formedness, kept by every operation in
  every order (\<open>services_step\<close>), and what each operation does to the lists. The two lists
  of a URI, the services of the table and the backends of its forwarder, are related
  through the interface \<open>slot_picker\<close> that the forwarders interpret in \<open>Balancing\<close>.
\<close>

section \<open>Well-formedness\<close>

definition list_ok :: "backend_service list \<times> 'g forwarder \<Rightarrow> bool" where
  "list_ok = (\<lambda>(l, f). mset (map service_key l) = mset (fwd_keys f) \<and> fwd_wf f)"

definition services_wf :: "'g services \<Rightarrow> bool" where
  "services_wf s \<longleftrightarrow>
     omap_ok (itsServicesByURI s) \<and> omap_ok (itsBackendInfoRequests s) \<and>
     omap_ok (itsSentinels s) \<and> prefix_wf (itsPrefixMap s) \<and>
     (\<forall>u e. omap_find (itsServicesByURI s) u = Some e \<longrightarrow> list_ok e) \<and>
     (\<forall>u l f svc. omap_find (itsServicesByURI s) u = Some (l, f) \<longrightarrow> svc \<in> set l \<longrightarrow>
        omap_find (itsSentinels s) (backend_id (service_key svc)) \<noteq> None) \<and>
     (\<forall>n l. omap_find (itsBackendInfoRequests s) n = Some l \<longrightarrow> (\<forall>r \<in> set l. reqName r = n))"

lemma services_wf_empty [simp, wf_intros]: "services_wf empty_services"
  by (simp add: services_wf_def empty_services_def)

lemma services_wf_sentinel:
  "services_wf s \<Longrightarrow> omap_find (itsServicesByURI s) u = Some (l, f) \<Longrightarrow> svc \<in> set l \<Longrightarrow>
     omap_find (itsSentinels s) (backend_id (service_key svc)) \<noteq> None"
  unfolding services_wf_def by blast

lemma services_wf_list:
  "services_wf s \<Longrightarrow> omap_find (itsServicesByURI s) u = Some e \<Longrightarrow> list_ok e"
  unfolding services_wf_def by blast

lemma services_wf_request:
  "services_wf s \<Longrightarrow> omap_find (itsBackendInfoRequests s) n = Some l \<Longrightarrow> r \<in> set l \<Longrightarrow> reqName r = n"
  unfolding services_wf_def by blast

lemma fwd_retire_del:
  "fwd_retire P E =
     (\<lambda>it f. fwd_removeBackend P (requestStatus E) (fst (service_key it)) (snd (service_key it)) f)"
  by (simp add: fwd_retire_def service_key_def fun_eq_iff)

text \<open>One list: the loops of \<open>removeBackend\<close> and \<open>latestSequence\<close> keep it well-formed.\<close>

lemma list_ok_erase_loop:
  assumes "list_ok (l, f)"
  shows "list_ok (erase_loop gone (\<lambda>it f. f) (fwd_retire P E) l f)"
proof -
  obtain l' f' where e: "erase_loop gone (\<lambda>it f. f) (fwd_retire P E) l f = (l', f')" by fastforce
  have "mset (map service_key l') = mset (fwd_keys f')"
    using fw.mset_erase_loop [of service_key l "[]" f gone P "requestStatus E" l' f'] assms e
    by (simp add: list_ok_def fwd_retire_del)
  moreover have "fwd_wf f'"
    using erase_loop_invariant [of fwd_wf f "\<lambda>it f. f" "fwd_retire P E" gone l] assms e
    by (simp add: list_ok_def fwd_retire_def)
  ultimately show ?thesis by (simp add: list_ok_def e)
qed

lemma list_ok_add:
  assumes "list_ok (l, f)"
  shows "list_ok (l @ [svc], fwd_addBackend P st (Name (Backend svc)) (Port (Backend svc)) w f)"
  using assms fw.mset_add [of service_key l f svc P st w]
  by (simp add: list_ok_def service_key_def)

lemma list_ok_new:
  "list_ok ([svc], fwd_addBackend P st (Name (Backend svc)) (Port (Backend svc)) w (new_forwarder m a c g))"
  using list_ok_add [of "[]" "new_forwarder m a c g" svc P st w] by (simp add: list_ok_def)

lemma list_ok_getBackend:
  "list_ok (l, f) \<Longrightarrow> list_ok (l, snd (fwd_getBackend P st r f))"
  using fw.slots_pick [of P st r f] by (simp add: list_ok_def fwd_wf_getBackend)

section \<open>The effect on the lists\<close>

lemma remove_lists_eq:
  "remove_lists P E h p u m pm =
     (omap_update (\<lambda>uri (l, f). erase_loop (remove_here h p u) (\<lambda>it f. f) (fwd_retire P E) l f) m,
      foldl (\<lambda>pm it. prefix_removeBackend u it pm) pm (concat (map (fst \<circ> snd) m)))"
proof (induction P E h p u m pm rule: remove_lists.induct)
  case (2 P E h p u uri entry rest pm)
  obtain l f where entry: "entry = (l, f)" by fastforce
  obtain l' f' where e: "erase_loop (remove_here h p u) (\<lambda>it f. f) (fwd_retire P E) l f = (l', f')"
    by fastforce
  then have l': "l' = filter (\<lambda>x. \<not> remove_here h p u x) l" by (metis fst_conv fst_erase_loop)
  have "erase_loop (remove_here h p u) (\<lambda>it (pm, f). (prefix_removeBackend u it pm, f))
      (\<lambda>it (pm, f). (pm, fwd_retire P E it f)) l (pm, f) =
      (l', foldl (\<lambda>pm it. prefix_removeBackend u it pm) pm l, f')"
    using erase_loop_pair [of "remove_here h p u" "prefix_removeBackend u" "fwd_retire P E" l pm f] e l'
    by (simp add: prod_eq_iff)
  then have "remove_from P E h p u entry pm = ((l', f'), foldl (\<lambda>pm it. prefix_removeBackend u it pm) pm l)"
    by (simp add: remove_from_def entry)
  with "2" e show ?case by (simp add: omap_update_def case_prod_beta entry)
qed (simp add: omap_update_def)

lemma find_removeBackend:
  "omap_find (itsServicesByURI (snd (removeBackend P E h p u s))) uri =
     map_option (\<lambda>(l, f). erase_loop (remove_here h p u) (\<lambda>it f. f) (fwd_retire P E) l f)
       (omap_find (itsServicesByURI s) uri)"
  by (simp add: removeBackend_def remove_lists_eq map_of_omap_update Let_def)

lemma find_latestSequence:
  "omap_find (itsServicesByURI (snd (latestSequence P E n s))) uri =
     map_option (prune_list P E n) (omap_find (itsServicesByURI s) uri)"
  by (simp add: latestSequence_def map_of_omap_update)

lemma fst_prune_list [simp]: "fst (prune_list P E n (l, f)) = filter (\<lambda>it. SequenceNumber it = n) l"
  by (simp add: prune_list_def)

lemma removeBackend_fields [simp]:
  "itsSentinels (snd (removeBackend P E h p u s)) = itsSentinels s"
  "itsBackendInfoRequests (snd (removeBackend P E h p u s)) = itsBackendInfoRequests s"
  by (simp_all add: removeBackend_def Let_def case_prod_beta)

section \<open>Every operation keeps the table well-formed\<close>

lemma services_wf_lists:
  assumes "services_wf s"
    and "itsServicesByURI s' = omap_update g (itsServicesByURI s)"
    and "itsSentinels s' = itsSentinels s" and "prefix_wf (itsPrefixMap s')"
    and "itsBackendInfoRequests s' = omap_update (\<lambda>n. filter q) (itsBackendInfoRequests s)"
    and "\<And>u l f. list_ok (l, f) \<Longrightarrow> list_ok (g u (l, f)) \<and> set (fst (g u (l, f))) \<subseteq> set l"
  shows "services_wf s'"
proof -
  have find: "omap_find (itsServicesByURI s') u = map_option (g u) (omap_find (itsServicesByURI s) u)" for u
    by (simp add: assms(2) map_of_omap_update)
  have lists: "list_ok e" if "omap_find (itsServicesByURI s') u = Some e" for u e
    using that assms(6) services_wf_list [OF assms(1)] by (auto simp: find)
  have sent: "omap_find (itsSentinels s) (backend_id (service_key svc)) \<noteq> None"
    if "omap_find (itsServicesByURI s') u = Some (l, f)" "svc \<in> set l" for u l f svc
  proof -
    from that(1) obtain l0 f0 where old: "omap_find (itsServicesByURI s) u = Some (l0, f0)"
      "g u (l0, f0) = (l, f)" by (auto simp: find)
    with assms(6) [OF services_wf_list [OF assms(1) old(1)], of u] that(2) have "svc \<in> set l0" by auto
    with services_wf_sentinel [OF assms(1) old(1)] show ?thesis .
  qed
  have reqs: "reqName r = n"
    if "omap_find (itsBackendInfoRequests s') n = Some l" "r \<in> set l" for n l r
    using that assms(5) services_wf_request [OF assms(1)] by (auto simp: map_of_omap_update)
  show ?thesis
    unfolding services_wf_def assms(3) using assms(1,2,4,5) lists sent reqs
    by (auto simp: services_wf_def)
qed

lemma services_wf_removeBackend [wf_intros]:
  assumes "services_wf s"
  shows "services_wf (snd (removeBackend P E h p u s))"
proof (rule services_wf_lists [OF assms, where q = "\<lambda>r. True"])
  have "prefix_wf (foldl (\<lambda>pm it. prefix_removeBackend u it pm) pm its)" if "prefix_wf pm" for pm its
    using that by (induction its arbitrary: pm) (auto intro: prefix_wf_remove)
  with assms show "prefix_wf (itsPrefixMap (snd (removeBackend P E h p u s)))"
    by (simp add: removeBackend_def remove_lists_eq services_wf_def Let_def)
  show "itsServicesByURI (snd (removeBackend P E h p u s)) =
      omap_update (\<lambda>uri (l, f). erase_loop (remove_here h p u) (\<lambda>it f. f) (fwd_retire P E) l f)
        (itsServicesByURI s)"
    by (simp add: removeBackend_def remove_lists_eq Let_def)
qed (auto simp: list_ok_erase_loop omap_update_def)

lemma services_wf_latestSequence [wf_intros]:
  assumes "services_wf s"
  shows "services_wf (snd (latestSequence P E n s))"
  by (rule services_wf_lists [OF assms, where q = "\<lambda>r. reqSequenceNumber r = n"])
    (use assms in \<open>auto simp: latestSequence_def prune_list_def list_ok_erase_loop services_wf_def\<close>)

lemma find_add_sentinel:
  "omap_find (add_sentinel n t m) = (omap_find m)(n \<mapsto> new_sentinel t)"
  by (auto simp: add_sentinel_def om.find_put om.find_del split: option.split)

lemma omap_ok_add_sentinel: "omap_ok m \<Longrightarrow> omap_ok (add_sentinel n t m)"
  by (auto simp: add_sentinel_def om.ok_put om.ok_del split: option.split)

lemma find_add_to_list:
  "omap_find (add_to_list P E svc uri w s) =
     (omap_find (itsServicesByURI s))(uri \<mapsto>
        (case omap_find (itsServicesByURI s) uri of
           Some (l, f) \<Rightarrow> (l @ [svc], fwd_addBackend P (requestStatus E) (Name (Backend svc)) (Port (Backend svc)) w f)
         | None \<Rightarrow> ([svc], fwd_addBackend P (requestStatus E) (Name (Backend svc)) (Port (Backend svc)) w
                    (new_forwarder (itsFwdMode s) (itsBalancingCoefficient s) (itsCookieName s)
                       (freshGenerator E)))))"
  by (simp add: add_to_list_def Let_def om.find_put split: option.split)

lemma addService_Some_fields [simp]:
  "fst (addService P E (Some svc) uri w t s) = True"
  "itsServicesByURI (snd (addService P E (Some svc) uri w t s)) = add_to_list P E svc uri w s"
  "itsSentinels (snd (addService P E (Some svc) uri w t s)) =
     add_sentinel (backend_id (service_key svc)) t (itsSentinels s)"
  "itsPrefixMap (snd (addService P E (Some svc) uri w t s)) =
     (if DefinesPrefix svc then addPrefix uri svc (itsPrefixMap s) else itsPrefixMap s)"
  "itsBackendInfoRequests (snd (addService P E (Some svc) uri w t s)) = itsBackendInfoRequests s"
  by (simp_all add: addService_def)

lemma addService_None [simp]: "addService P E None uri w t s = (False, s)"
  by (simp add: addService_def)

lemma services_wf_addService [wf_intros]:
  assumes "services_wf s"
  shows "services_wf (snd (addService P E svc uri w t s))"
proof (cases svc)
  case (Some v)
  let ?s = "snd (addService P E svc uri w t s)"
  note s = Some addService_Some_fields find_add_to_list find_add_sentinel
  have lists: "list_ok e" if "omap_find (itsServicesByURI ?s) u = Some e" for u e
    using that services_wf_list [OF assms, of u]
    by (auto simp: s list_ok_new intro: list_ok_add split: if_splits option.splits)
  have sent: "omap_find (itsSentinels ?s) (backend_id (service_key x)) \<noteq> None"
    if "omap_find (itsServicesByURI ?s) u = Some (l, f)" "x \<in> set l" for u l f x
  proof (cases "x = v")
    case False
    with that obtain l0 f0 where "omap_find (itsServicesByURI s) u = Some (l0, f0)" "x \<in> set l0"
      by (auto simp: s split: if_splits option.splits)
    from services_wf_sentinel [OF assms this] show ?thesis by (simp add: s)
  qed (simp add: s)
  have "omap_ok (add_to_list P E v uri w s)"
    using assms by (auto simp: add_to_list_def Let_def services_wf_def om.ok_put split: option.split)
  with assms lists sent show ?thesis
    unfolding services_wf_def by (auto simp: Some omap_ok_add_sentinel intro: prefix_wf_add)
qed (use assms in simp)

lemma services_wf_addBackendInfoRequest [wf_intros]:
  assumes "services_wf s"
  shows "services_wf (snd (addBackendInfoRequest req s))"
proof (cases req)
  case (Some r)
  then show ?thesis
    using assms services_wf_request [OF assms, of "reqName r"]
    unfolding services_wf_def addBackendInfoRequest_def
    by (auto simp: om.find_put om.ok_put split: option.split)
qed (use assms in \<open>simp add: addBackendInfoRequest_def\<close>)

lemma services_wf_sentinels:
  assumes "services_wf s" and "omap_find (itsSentinels s) n \<noteq> None"
  shows "services_wf (s\<lparr>itsSentinels := omap_set n v (itsSentinels s)\<rparr>)"
  using assms unfolding services_wf_def by (auto simp: om.find_put om.ok_put)

lemma services_wf_setBackendAlive [wf_intros]:
  "services_wf s \<Longrightarrow> services_wf (setBackendAlive h p s)"
  by (auto simp: setBackendAlive_def Let_def intro: services_wf_sentinels split: option.split)

lemma services_wf_signalBackendConnection [wf_intros]:
  "services_wf s \<Longrightarrow> services_wf (signalBackendConnection h p s)"
  by (auto simp: signalBackendConnection_def Let_def intro: services_wf_sentinels split: option.split)

lemma services_wf_cong:
  "itsServicesByURI s' = itsServicesByURI s \<Longrightarrow> itsBackendInfoRequests s' = itsBackendInfoRequests s \<Longrightarrow>
     itsPrefixMap s' = itsPrefixMap s \<Longrightarrow> itsSentinels s' = itsSentinels s \<Longrightarrow>
     services_wf s' = services_wf s"
  by (simp add: services_wf_def)

lemma setForwarding_fields:
  assumes "setForwarding m a c s = Inr s'"
  shows "itsServicesByURI s' = itsServicesByURI s" "itsBackendInfoRequests s' = itsBackendInfoRequests s"
    "itsPrefixMap s' = itsPrefixMap s" "itsSentinels s' = itsSentinels s"
  using assms by (auto simp: setForwarding_def split: sum.splits)

lemma services_wf_setForwarding [wf_intros]:
  "services_wf s \<Longrightarrow> setForwarding m a c s = Inr s' \<Longrightarrow> services_wf s'"
  using services_wf_cong [OF setForwarding_fields] by blast

lemma services_wf_put_list:
  assumes "services_wf s" and "omap_find (itsServicesByURI s) u = Some (l, f)" and "list_ok (l, f')"
  shows "services_wf (s\<lparr>itsServicesByURI := omap_set u (l, f') (itsServicesByURI s)\<rparr>)"
  using assms services_wf_sentinel [OF assms(1,2)] unfolding services_wf_def
  by (auto simp: om.find_put om.ok_put)

lemma services_wf_getService [wf_intros]:
  assumes "services_wf s"
  shows "services_wf (snd (getService P E r s))"
proof (cases "omap_find (itsServicesByURI s) (translate P (itsPrefixMap s) (getResource r))")
  case (Some e)
  obtain l f where e: "e = (l, f)" by fastforce
  obtain slot f' where g: "fwd_getBackend P (requestStatus E) r f = (slot, f')" by fastforce
  have "list_ok (l, f')"
    using list_ok_getBackend [of l f P "requestStatus E" r] services_wf_list [OF assms Some] e g by simp
  from services_wf_put_list [OF assms Some [unfolded e] this] assms show ?thesis
    by (simp add: getService_def choose_backend_def Let_def Some e g split: sum.split)
qed (use assms in \<open>simp add: getService_def choose_backend_def\<close>)

end
