(* ===== verification/Runs.thy ===== *)
theory Runs
  imports Sputnik_Prelude
begin

text \<open>
  Sequences of operations: \<open>run\<close> executes one. An operation answers \<open>None\<close> when the process
  is gone. That what several threads do to the routing table is such a sequence is shown in
  \<open>Concurrency\<close>.
\<close>

fun run :: "('op \<Rightarrow> 's \<Rightarrow> 's option) \<Rightarrow> 'op list \<Rightarrow> 's \<Rightarrow> 's option" where
  "run exec [] s = Some s"
| "run exec (op # ops) s = (case exec op s of None \<Rightarrow> None | Some s' \<Rightarrow> run exec ops s')"

lemma run_append: "run exec (xs @ ys) s = (case run exec xs s of None \<Rightarrow> None | Some s' \<Rightarrow> run exec ys s')"
  by (induction xs arbitrary: s) (auto split: option.split)

text \<open>What every admitted operation keeps, every run of admitted operations keeps.\<close>

locale kept_by_runs =
  fixes exec :: "'op \<Rightarrow> 's \<Rightarrow> 's option"
    and admitted :: "'op \<Rightarrow> bool"
    and inv :: "'s \<Rightarrow> bool"
  assumes step: "inv s \<Longrightarrow> admitted op \<Longrightarrow> exec op s = Some s' \<Longrightarrow> inv s'"
begin

lemma run_kept: "run exec ops s = Some s' \<Longrightarrow> inv s \<Longrightarrow> list_all admitted ops \<Longrightarrow> inv s'"
  by (induction ops arbitrary: s) (auto split: option.splits dest: step)

end

section \<open>Traces\<close>

text \<open>
  The visible events of a run of a step relation, whose internal steps are labelled \<open>None\<close>;
  and when every trace of an implementation is one of its specification.
\<close>

inductive trace :: "('e option \<Rightarrow> 's \<Rightarrow> 's \<Rightarrow> bool) \<Rightarrow> 's \<Rightarrow> 'e list \<Rightarrow> 's \<Rightarrow> bool"
  for step :: "'e option \<Rightarrow> 's \<Rightarrow> 's \<Rightarrow> bool" and s :: 's where
  trace_start: "trace step s [] s"
| trace_internal: "trace step s es s' \<Longrightarrow> step None s' s'' \<Longrightarrow> trace step s es s''"
| trace_event: "trace step s es s' \<Longrightarrow> step (Some e) s' s'' \<Longrightarrow> trace step s (es @ [e]) s''"

locale forward_simulation =
  fixes step :: "'e option \<Rightarrow> 's \<Rightarrow> 's \<Rightarrow> bool"
    and spec :: "'e option \<Rightarrow> 'a \<Rightarrow> 'a \<Rightarrow> bool"
    and implements :: "'s \<Rightarrow> 'a \<Rightarrow> bool"
  assumes simulated: "implements s a \<Longrightarrow> step l s s' \<Longrightarrow>
      (l = None \<and> implements s' a) \<or> (\<exists>a'. spec l a a' \<and> implements s' a')"
begin

lemma trace_simulated:
  assumes "trace step s es s'" and "implements s a"
  shows "\<exists>a'. trace spec a es a' \<and> implements s' a'"
  using assms(1)
proof induction
  case trace_start
  show ?case by (intro exI conjI) (rule trace.trace_start, rule assms(2))
next
  case (trace_internal es s' s'')
  then obtain a' where a': "trace spec a es a'" "implements s' a'" by auto
  from simulated [OF a'(2) trace_internal.hyps(2)]
  have "implements s'' a' \<or> (\<exists>a''. spec None a' a'' \<and> implements s'' a'')" by simp
  then show ?case
  proof
    assume "\<exists>a''. spec None a' a'' \<and> implements s'' a''"
    then obtain a'' where "spec None a' a''" "implements s'' a''" by auto
    with trace.trace_internal [OF a'(1)] show ?case by auto
  qed (use a'(1) in auto)
next
  case (trace_event es s' e s'')
  then obtain a' where a': "trace spec a es a'" "implements s' a'" by auto
  from simulated [OF a'(2) trace_event.hyps(2)] obtain a'' where "spec (Some e) a' a''" "implements s'' a''"
    by auto
  with trace.trace_event [OF a'(1)] show ?case by auto
qed

end

end
