(* ===== verification/Table_Runs.thy ===== *)
theory Table_Runs
  imports Routing Runs
begin

text \<open>
  The operations of \<open>Services\<close> as values, so that a sequence of them (any interleaving of
  the reactor's threads with the heartbeat thread) is a list that can be executed, and what
  holds after every such sequence.
\<close>

datatype 'g table_op =
    OpGetService "'g env" http_request
  | OpRemoveBackend "'g env" string int string
  | OpSetBackendAlive string int
  | OpSignalBackendConnection string int
  | OpLatestSequence "'g env" int
  | OpAddService "'g env" "backend_service option" string f32 "32 word"
  | OpAddBackendInfoRequest "backend_info_request option"
  | OpSetForwarding string f32 string

text \<open>A throwing \<open>setForwarding\<close> leaves the table as it was; a killed process has none.\<close>

fun table_exec :: "'g platform \<Rightarrow> 'g table_op \<Rightarrow> 'g services \<Rightarrow> 'g services option" where
  "table_exec P (OpGetService E r) s = Some (snd (getService P E r s))"
| "table_exec P (OpRemoveBackend E h p u) s =
     (case removeBackend P E h p u s of (Returned b, s') \<Rightarrow> Some s' | (Killed, s') \<Rightarrow> None)"
| "table_exec P (OpSetBackendAlive h p) s = Some (setBackendAlive h p s)"
| "table_exec P (OpSignalBackendConnection h p) s = Some (signalBackendConnection h p s)"
| "table_exec P (OpLatestSequence E n) s = Some (snd (latestSequence P E n s))"
| "table_exec P (OpAddService E svc uri w t) s = Some (snd (addService P E svc uri w t s))"
| "table_exec P (OpAddBackendInfoRequest req) s = Some (snd (addBackendInfoRequest req s))"
| "table_exec P (OpSetForwarding m a c) s =
     (case setForwarding m a c s of Inl e \<Rightarrow> Some s | Inr s' \<Rightarrow> Some s')"

lemma table_exec_remove:
  "table_exec P (OpRemoveBackend E h p u) s = Some s' \<Longrightarrow> s' = snd (removeBackend P E h p u s)"
  by (auto split: prod.splits fate.splits)

section \<open>Well-formedness\<close>

interpretation table_wf: kept_by_runs "table_exec P" "\<lambda>op. True" services_wf for P
proof
  show "services_wf s'" if "services_wf s" and ex: "table_exec P op s = Some s'" for s s' op
  proof (cases op)
    case (OpRemoveBackend E h p u)
    with ex table_exec_remove have "s' = snd (removeBackend P E h p u s)" by blast
    with that show ?thesis by (simp add: wf_intros)
  qed (use that in \<open>auto intro: wf_intros split: sum.splits\<close>)
qed

definition table_reachable :: "'g platform \<Rightarrow> 'g table_op list \<Rightarrow> 'g services \<Rightarrow> bool" where
  "table_reachable P ops s \<longleftrightarrow> run (table_exec P) ops empty_services = Some s"

lemma reachable_wf: "table_reachable P ops s \<Longrightarrow> services_wf s"
  using table_wf.run_kept [of P ops empty_services s] by (simp add: table_reachable_def list_all_iff)

section \<open>Which services can be listed\<close>

fun announces :: "backend_key \<Rightarrow> 'g table_op \<Rightarrow> bool" where
  "announces k (OpAddService E (Some svc) uri w t) = (service_key svc = k)"
| "announces k op = False"

definition uri_list :: "'g services \<Rightarrow> string \<Rightarrow> backend_service list option" where
  "uri_list s u = map_option fst (omap_find (itsServicesByURI s) u)"

lemma uri_list_getService [op_simps]: "uri_list (snd (getService P E r s)) = uri_list s"
  by (simp add: uri_list_def fun_eq_iff getService_def choose_backend_def Let_def om.find_put
      split: option.split prod.split sum.split)

lemma uri_list_removeBackend [op_simps]:
  "uri_list (snd (removeBackend P E h p u s)) =
     map_option (filter (\<lambda>it. \<not> remove_here h p u it)) \<circ> uri_list s"
  by (simp add: uri_list_def fun_eq_iff find_removeBackend option.map_comp comp_def case_prod_beta)

lemma uri_list_latestSequence [op_simps]:
  "uri_list (snd (latestSequence P E n s)) =
     map_option (filter (\<lambda>it. SequenceNumber it = n)) \<circ> uri_list s"
  by (simp add: uri_list_def fun_eq_iff find_latestSequence option.map_comp comp_def
      prune_list_def case_prod_beta)

lemma uri_list_addService [op_simps]:
  "uri_list (snd (addService P E (Some v) uri w t s)) =
     (uri_list s)(uri \<mapsto> (case uri_list s uri of Some l \<Rightarrow> l | None \<Rightarrow> []) @ [v])"
  by (simp add: uri_list_def fun_eq_iff find_add_to_list split: option.split)

definition list_at :: "'g services \<Rightarrow> string \<Rightarrow> backend_service list" where
  "list_at s u = (case uri_list s u of None \<Rightarrow> [] | Some l \<Rightarrow> l)"

definition listed :: "'g services \<Rightarrow> backend_service \<Rightarrow> bool" where
  "listed s svc \<longleftrightarrow> (\<exists>u. svc \<in> set (list_at s u))"

lemma listedI: "omap_find (itsServicesByURI s) u = Some (l, f) \<Longrightarrow> svc \<in> set l \<Longrightarrow> listed s svc"
  unfolding listed_def list_at_def uri_list_def by (rule exI [of _ u]) simp

lemma listed_cong: "itsServicesByURI s' = itsServicesByURI s \<Longrightarrow> listed s' = listed s"
  by (simp add: listed_def list_at_def uri_list_def fun_eq_iff)

lemma listed_getService [simp]: "listed (snd (getService P E r s)) = listed s"
  by (simp add: listed_def list_at_def op_simps fun_eq_iff)

lemma listed_removeBackend:
  "listed (snd (removeBackend P E h p u s)) svc \<longleftrightarrow> listed s svc \<and> \<not> remove_here h p u svc"
  unfolding listed_def list_at_def op_simps by (fastforce split: option.splits)

lemma listed_latestSequence:
  "listed (snd (latestSequence P E n s)) svc \<longleftrightarrow> listed s svc \<and> SequenceNumber svc = n"
  unfolding listed_def list_at_def op_simps by (fastforce split: option.splits)

lemma listed_addService:
  "listed (snd (addService P E (Some v) uri w t s)) svc \<longleftrightarrow> listed s svc \<or> svc = v"
  unfolding listed_def list_at_def op_simps
  by (auto split: option.splits if_splits intro: exI [of _ uri])

lemma sentinel_ops_lists [simp]:
  "itsServicesByURI (setBackendAlive h p s) = itsServicesByURI s"
  "itsServicesByURI (signalBackendConnection h p s) = itsServicesByURI s"
  by (simp_all add: setBackendAlive_def signalBackendConnection_def Let_def split: option.split)

lemma listed_others [simp]:
  "listed (setBackendAlive h p s) = listed s"
  "listed (signalBackendConnection h p s) = listed s"
  "listed (snd (addBackendInfoRequest req s)) = listed s"
  by (rule listed_cong; simp add: setBackendAlive_def signalBackendConnection_def
      addBackendInfoRequest_def Let_def split: option.split)+

lemma listed_setForwarding: "setForwarding m a c s = Inr s' \<Longrightarrow> listed s' = listed s"
  by (rule listed_cong) (rule setForwarding_fields)

text \<open>A service gets into a list by being added, and in no other way.\<close>

lemma listed_exec:
  assumes "table_exec P op s = Some s'" and "listed s' svc"
  shows "listed s svc \<or> announces (service_key svc) op"
proof (cases op)
  case (OpRemoveBackend E h p u)
  with assms table_exec_remove show ?thesis by (metis listed_removeBackend)
next
  case (OpAddService E v uri w t)
  with assms show ?thesis by (cases v) (auto simp: listed_addService)
next
  case (OpSetForwarding m a c)
  with assms show ?thesis by (cases "setForwarding m a c s") (auto simp: listed_setForwarding)
qed (use assms in \<open>auto simp: listed_latestSequence\<close>)

interpretation table_gone: kept_by_runs "table_exec P" "\<lambda>op. \<not> announces k op"
  "\<lambda>s. \<forall>svc. listed s svc \<longrightarrow> service_key svc \<noteq> k" for P k
  by standard (metis listed_exec)

lemma getService_listed:
  assumes "fst (getService P E r s) = Inr (Some svc)"
  shows "listed s svc"
  using assms by (auto simp: getService_def choose_backend_def Let_def intro!: listedI
      split: option.splits prod.splits sum.splits if_splits)

lemma getService_at:
  assumes "omap_find (itsServicesByURI s) (translate P (itsPrefixMap s) (getResource r)) = Some (l, f)"
    and "fst (fwd_getBackend P (requestStatus E) r f) = Inr i" and "i < length l"
  shows "fst (getService P E r s) = Inr (Some (l ! i))"
  using assms by (auto simp: getService_def choose_backend_def Let_def case_prod_beta)

section \<open>The count of the sentinel\<close>

fun signals :: "backend_key \<Rightarrow> 'g table_op \<Rightarrow> bool" where
  "signals k (OpSignalBackendConnection h p) = ((h, p) = k)"
| "signals k op = False"

fun acknowledges :: "backend_key \<Rightarrow> 'g table_op \<Rightarrow> bool" where
  "acknowledges k (OpSetBackendAlive h p) = ((h, p) = k)"
| "acknowledges k (OpAddService E (Some svc) uri w t) = (service_key svc = k)"
| "acknowledges k op = False"

definition sentinel_of :: "backend_key \<Rightarrow> 'g services \<Rightarrow> sentinel option" where
  "sentinel_of k s = omap_find (itsSentinels s) (backend_id k)"

lemma sentinel_of_simps [simp, op_simps]:
  "sentinel_of k (snd (getService P E r s)) = sentinel_of k s"
  "sentinel_of k (snd (removeBackend P E h p u s)) = sentinel_of k s"
  "sentinel_of k (snd (latestSequence P E n s)) = sentinel_of k s"
  "sentinel_of k (snd (addBackendInfoRequest req s)) = sentinel_of k s"
  "sentinel_of k (snd (addService P E (Some svc) uri w t s)) =
     (if service_key svc = k then Some (new_sentinel t) else sentinel_of k s)"
  "sentinel_of k (setBackendAlive h p s) =
     (if (h, p) = k then map_option setAlive (sentinel_of k s) else sentinel_of k s)"
  "sentinel_of k (signalBackendConnection h p s) =
     (if (h, p) = k then map_option signalSentConnection (sentinel_of k s) else sentinel_of k s)"
  by (auto simp: sentinel_of_def getService_def choose_backend_def latestSequence_def addBackendInfoRequest_def
      setBackendAlive_def signalBackendConnection_def find_add_sentinel om.find_put backend_id_inj Let_def
      split: option.splits prod.splits sum.splits)

lemma sentinel_of_exec:
  assumes "table_exec P op s = Some s'" and "\<not> acknowledges k op"
  shows "sentinel_of k s' =
     (if signals k op then map_option signalSentConnection (sentinel_of k s) else sentinel_of k s)"
proof (cases op)
  case (OpRemoveBackend E h p u)
  with assms table_exec_remove show ?thesis by (metis sentinel_of_simps(2) signals.simps(3))
next
  case (OpAddService E v uri w t)
  with assms show ?thesis by (cases v) auto
next
  case (OpSetForwarding m a c)
  with assms show ?thesis
    by (cases "setForwarding m a c s") (auto simp: sentinel_of_def setForwarding_fields)
qed (use assms in auto)

lemma sentinel_of_run:
  assumes "run (table_exec P) ops s = Some s'" and "list_all (\<lambda>op. \<not> acknowledges k op) ops"
  shows "sentinel_of k s' =
     map_option (signalSentConnection ^^ length (filter (signals k) ops)) (sentinel_of k s)"
  using assms
proof (induction ops arbitrary: s)
  case (Cons op ops)
  then obtain s1 where s1: "table_exec P op s = Some s1" "run (table_exec P) ops s1 = Some s'"
    by (auto split: option.splits)
  with Cons.IH [OF s1(2)] Cons.prems(2) sentinel_of_exec [OF s1(1), of k] show ?case
    by (simp add: option.map_comp comp_def funpow_swap1)
qed (simp add: id_def option.map_ident)

lemma queryBackendAlive_sentinel:
  "queryBackendAlive h p s = (case sentinel_of (h, p) s of Some sentinel \<Rightarrow> getAlive sentinel | None \<Rightarrow> False)"
  by (simp add: queryBackendAlive_def sentinel_of_def)

section \<open>Samples\<close>

definition sample_env :: "nat env" where
  "sample_env = \<lparr>requestStatus = Map.empty, freshGenerator = 0\<rparr>"

definition sample_server :: "string \<Rightarrow> backend_server" where
  "sample_server h =
     \<lparr>Name = h, IP = ''10.0.0.2'', Port = 80, Comment = [], Load = Fin 0, Throttle = 5\<rparr>"

definition sample_service :: "string \<Rightarrow> int \<Rightarrow> backend_service" where
  "sample_service h n =
     \<lparr>Backend = sample_server h, URI = ''/wms'', LastUpdate = 0, AllowCache = True,
      SequenceNumber = n, DefinesPrefix = False\<rparr>"

definition sample_add :: "string \<Rightarrow> int \<Rightarrow> nat table_op" where
  "sample_add h n = OpAddService sample_env (Some (sample_service h n)) ''/wms'' (Fin 0) 5"

lemma sample_service_fields [simp]:
  "service_key (sample_service h n) = (h, 80)" "SequenceNumber (sample_service h n) = n"
  "URI (sample_service h n) = ''/wms''" "DefinesPrefix (sample_service h n) = False"
  "Name (Backend (sample_service h n)) = h" "Port (Backend (sample_service h n)) = 80"
  by (simp_all add: sample_service_def service_key_def sample_server_def)

lemma sample_port: "to_string 80 = ''80''"
  by code_simp

lemma sample_env_fields [simp]:
  "requestStatus sample_env = Map.empty" "freshGenerator sample_env = 0"
  by (simp_all add: sample_env_def)

text \<open>The table in which \<open>a\<close> and \<open>b\<close> have announced \<open>/wms\<close>.\<close>

definition sample_table :: "string \<Rightarrow> nat services" where
  "sample_table m =
     (case run (table_exec reference_platform)
             [OpSetForwarding m (Fin 2) [], sample_add ''a'' 1, sample_add ''b'' 1]
             empty_services of
        Some s \<Rightarrow> s | None \<Rightarrow> empty_services)"

lemma sample_modes [simp]:
  "forwarding_mode_of ''leastconnections'' = Inr LeastConnections"
  "forwarding_mode_of ''random'' = Inr Random"
  by (simp_all add: forwarding_mode_of_def)

lemma sample_table_eq:
  "forwarding_mode_of m = Inr mode \<Longrightarrow> sample_table m =
     empty_services
       \<lparr>itsServicesByURI :=
          [(''/wms'', [sample_service ''a'' 1, sample_service ''b'' 1],
            fwd_addBackend reference_platform Map.empty ''b'' 80 (Fin 0)
              (fwd_addBackend reference_platform Map.empty ''a'' 80 (Fin 0)
                (new_forwarder mode (Fin 2) [] 0)))],
        itsSentinels := [(''a:80'', new_sentinel 5), (''b:80'', new_sentinel 5)],
        itsFwdMode := mode\<rparr>"
  by (simp add: sample_table_def setForwarding_def sample_add_def
      empty_services_def addService_def add_to_list_def add_sentinel_def backend_id_def
      sample_port less_char_def)

lemma sample_table_reachable:
  "table_reachable reference_platform
     [OpSetForwarding m (Fin 2) [], sample_add ''a'' 1, sample_add ''b'' 1] (sample_table m)"
  unfolding table_reachable_def sample_table_def
  by (simp add: sample_add_def split: sum.split)

end
