(* ===== verification/Alignment.thy ===== *)
theory Alignment
  imports Table_Runs
begin

text \<open>
  The table's list of a URI and the list of its forwarder, position by position. The index
  a forwarder answers is used on the table's list, and the load it weighs by is the one it
  was given when the service was added: both are right only while the two lists are in
  step. \<open>in_step\<close> compares them through a view of their entries: the backend alone
  (\<open>aligned\<close>) or the whole entry (\<open>mirrored\<close>).
\<close>

definition in_step ::
  "(backend_info \<Rightarrow> 'v) \<Rightarrow> (backend_service \<Rightarrow> 'v) \<Rightarrow> 'g services \<Rightarrow> bool" where
  "in_step view sview s \<longleftrightarrow>
     (\<forall>u l f. omap_find (itsServicesByURI s) u = Some (l, f) \<longrightarrow>
        map sview l = map view (itsBackendInfos f))"

definition aligned :: "'g services \<Rightarrow> bool" where
  "aligned s \<longleftrightarrow> in_step info_key service_key s"

definition service_info :: "backend_service \<Rightarrow> backend_info" where
  "service_info svc = new_backend_info (Name (Backend svc)) (Port (Backend svc)) (Load (Backend svc))"

definition mirrored :: "'g services \<Rightarrow> bool" where
  "mirrored s \<longleftrightarrow> in_step (\<lambda>i. i) service_info s"

definition oldest_first :: "(backend_service \<Rightarrow> bool) \<Rightarrow> backend_service list \<Rightarrow> bool" where
  "oldest_first gone = sorted_wrt (\<lambda>x y. gone y \<longrightarrow> service_key x = service_key y \<longrightarrow> gone x)"

lemma in_stepD:
  "in_step view sview s \<Longrightarrow> omap_find (itsServicesByURI s) u = Some (l, f) \<Longrightarrow>
     map sview l = map view (itsBackendInfos f)"
  by (auto simp: in_step_def)

lemma in_step_empty [simp]: "in_step view sview empty_services"
  by (simp add: in_step_def empty_services_def)

lemma in_step_cong:
  "itsServicesByURI s' = itsServicesByURI s \<Longrightarrow> in_step view sview s' = in_step view sview s"
  by (simp add: in_step_def)

lemma in_step_put:
  assumes "in_step view sview s" and "map sview l = map view (itsBackendInfos f)"
  shows "in_step view sview (s\<lparr>itsServicesByURI := omap_set u (l, f) (itsServicesByURI s)\<rparr>)"
  using assms by (simp add: in_step_def om.find_put)

lemma in_step_getService [intro]:
  assumes "in_step view sview s"
  shows "in_step view sview (snd (getService P E r s))"
proof (cases "omap_find (itsServicesByURI s) (translate P (itsPrefixMap s) (getResource r))")
  case (Some e)
  obtain l f where e: "e = (l, f)" by fastforce
  obtain slot f' where g: "fwd_getBackend P (requestStatus E) r f = (slot, f')" by fastforce
  have "map sview l = map view (itsBackendInfos f')"
    using in_stepD [OF assms Some [unfolded e]] fwd_getBackend_fields(1) [of P "requestStatus E" r f] g by simp
  from in_step_put [OF assms this] assms show ?thesis
    by (simp add: getService_def choose_backend_def Let_def Some e g split: sum.split)
qed (use assms in \<open>simp add: getService_def choose_backend_def\<close>)

lemma in_step_others [simp]:
  "in_step view sview (setBackendAlive h p s) = in_step view sview s"
  "in_step view sview (signalBackendConnection h p s) = in_step view sview s"
  "in_step view sview (snd (addBackendInfoRequest req s)) = in_step view sview s"
  by (rule in_step_cong; simp add: addBackendInfoRequest_def split: option.split)+

lemma in_step_setForwarding:
  "setForwarding m a c s = Inr s' \<Longrightarrow> in_step view sview s' = in_step view sview s"
  by (rule in_step_cong) (rule setForwarding_fields)

section \<open>Operations in order\<close>

text \<open>
  Along a run: the URI of \<open>removeBackend\<close> is its default, the empty string, and each
  \<open>latestSequence\<close> finds the confirmed services behind the stale ones.
\<close>

fun in_order :: "'g table_op \<Rightarrow> 'g services \<Rightarrow> bool" where
  "in_order (OpRemoveBackend E h p u) s = (u = [])"
| "in_order (OpLatestSequence E n) s =
     list_all (\<lambda>e. oldest_first (\<lambda>it. SequenceNumber it \<noteq> n) (fst (snd e))) (itsServicesByURI s)"
| "in_order op s = True"

text \<open>The load the forwarder is told is the load of the service's backend.\<close>

fun tells_load :: "'g table_op \<Rightarrow> bool" where
  "tells_load (OpAddService E (Some svc) uri w t) = (w = Load (Backend svc))"
| "tells_load op = True"

lemma in_order_lists:
  assumes "in_order (OpLatestSequence E n) s" and "uri_list s u = Some l"
  shows "oldest_first (\<lambda>it. SequenceNumber it \<noteq> n) l"
proof -
  from assms(2) obtain f where "(u, l, f) \<in> set (itsServicesByURI s)"
    by (auto simp: uri_list_def dest: map_of_SomeD)
  with assms(1) show ?thesis by (force simp: list_all_iff)
qed

section \<open>Views that see the backend\<close>

text \<open>
  The contract of a view: entries that look the same are of the same backend. Then the
  erase loops keep the lists in step, if no erased service stands behind one of the same
  backend that stays.
\<close>

locale table_view =
  fixes view :: "backend_info \<Rightarrow> 'v" and sview :: "backend_service \<Rightarrow> 'v"
  assumes view_key: "view i = sview svc \<Longrightarrow> info_key i = service_key svc"
begin

lemma erase_keeps:
  assumes "map sview l = map view (itsBackendInfos f)" and "oldest_first gone l"
    and "erase_loop gone (\<lambda>it f. f) (fwd_retire P E) l f = (l', f')"
  shows "map sview l' = map view (itsBackendInfos f')"
  using fe.view_erase_loop [of view sview service_key f "[]" "itsBackendInfos f" l gone P "requestStatus E" l' f',
      OF view_key] assms
  by (simp add: oldest_first_def fwd_retire_del)

lemma latestSequence_keeps:
  assumes "in_step view sview s"
    and "\<And>u l. uri_list s u = Some l \<Longrightarrow> oldest_first (\<lambda>it. SequenceNumber it \<noteq> n) l"
  shows "in_step view sview (snd (latestSequence P E n s))"
  unfolding in_step_def find_latestSequence
proof (intro allI impI)
  fix u l f
  assume "map_option (prune_list P E n) (omap_find (itsServicesByURI s) u) = Some (l, f)"
  then obtain l0 f0 where e: "omap_find (itsServicesByURI s) u = Some (l0, f0)"
    "erase_loop (\<lambda>it. SequenceNumber it \<noteq> n) (\<lambda>it f. f) (fwd_retire P E) l0 f0 = (l, f)"
    by (auto simp: prune_list_def)
  have "uri_list s u = Some l0" by (simp add: uri_list_def e(1))
  from erase_keeps [OF in_stepD [OF assms(1) e(1)] assms(2) [OF this] e(2)]
  show "map sview l = map view (itsBackendInfos f)" .
qed

lemma removeBackend_keeps:
  assumes "in_step view sview s"
  shows "in_step view sview (snd (removeBackend P E h p [] s))"
  unfolding in_step_def find_removeBackend
proof (intro allI impI)
  fix u l f
  assume "map_option (\<lambda>(l, f). erase_loop (remove_here h p []) (\<lambda>it f. f) (fwd_retire P E) l f)
      (omap_find (itsServicesByURI s) u) = Some (l, f)"
  then obtain l0 f0 where e: "omap_find (itsServicesByURI s) u = Some (l0, f0)"
    "erase_loop (remove_here h p []) (\<lambda>it f. f) (fwd_retire P E) l0 f0 = (l, f)" by auto
  have "oldest_first (remove_here h p []) l0"
    by (auto simp: oldest_first_def sorted_wrt_iff_nth_less remove_here_def service_key_def)
  from erase_keeps [OF in_stepD [OF assms e(1)] this e(2)]
  show "map sview l = map view (itsBackendInfos f)" .
qed

lemma addService_keeps:
  assumes "in_step view sview s"
    and "view (new_backend_info (Name (Backend v)) (Port (Backend v)) w) = sview v"
  shows "in_step view sview (snd (addService P E (Some v) uri w t s))"
  using assms in_stepD [OF assms(1), of uri]
  by (auto simp: in_step_def find_add_to_list new_forwarder_def split: option.splits if_splits)

lemma exec_keeps:
  assumes "in_step view sview s" and "in_order op s"
    and "\<And>E v uri w t. op = OpAddService E (Some v) uri w t \<Longrightarrow>
           view (new_backend_info (Name (Backend v)) (Port (Backend v)) w) = sview v"
    and "table_exec P op s = Some s'"
  shows "in_step view sview s'"
proof (cases op)
  case (OpRemoveBackend E h p u)
  with assms table_exec_remove removeBackend_keeps show ?thesis by (metis in_order.simps(1))
next
  case (OpLatestSequence E n)
  with assms latestSequence_keeps [of s n] in_order_lists show ?thesis by force
next
  case (OpAddService E v uri w t)
  with assms(1,3,4) addService_keeps [OF assms(1)] show ?thesis by (cases v) auto
next
  case (OpSetForwarding m a c)
  with assms show ?thesis by (cases "setForwarding m a c s") (auto simp: in_step_setForwarding)
qed (use assms in auto)

end

interpretation keys_view: table_view info_key service_key
  by standard

interpretation info_view: table_view "\<lambda>i. i" service_info
  by standard (simp add: service_info_def service_key_def)

lemma alignedD:
  "aligned s \<Longrightarrow> omap_find (itsServicesByURI s) u = Some (l, f) \<Longrightarrow> map service_key l = fwd_keys f"
  by (simp add: aligned_def in_stepD fwd_keys_def)

lemma mirroredD:
  "mirrored s \<Longrightarrow> omap_find (itsServicesByURI s) u = Some (l, f) \<Longrightarrow> itsBackendInfos f = map service_info l"
  using in_stepD [of "\<lambda>i. i" service_info s u l f] by (simp add: mirrored_def)

lemma mirrored_aligned: "mirrored s \<Longrightarrow> aligned s"
  by (auto simp: aligned_def in_step_def mirroredD service_info_def service_key_def)

text \<open>One operation of a run, in either view.\<close>

lemma aligned_exec:
  "aligned s \<Longrightarrow> in_order op s \<Longrightarrow> table_exec P op s = Some s' \<Longrightarrow> aligned s'"
  unfolding aligned_def by (rule keys_view.exec_keeps) (auto simp: service_key_def)

lemma mirrored_exec:
  "mirrored s \<Longrightarrow> in_order op s \<Longrightarrow> tells_load op \<Longrightarrow> table_exec P op s = Some s' \<Longrightarrow> mirrored s'"
  unfolding mirrored_def by (rule info_view.exec_keeps) (auto simp: service_info_def)

end
