(* ===== verification/Table_Properties.thy ===== *)
theory Table_Properties
  imports Alignment
begin

text \<open>
  The properties of the routing table: what \<open>getService\<close> answers, what each removal
  leaves, and what holds along whole sequences of operations.
\<close>

section \<open>Forwarding\<close>

text \<open>
  After every sequence of operations, each service a URI lists has a sentinel, and the
  forwarder of the URI knows exactly the listed backends, each as often as it is listed.
\<close>

lemma listed_services_tracked:
  assumes "table_reachable P ops s" and "omap_find (itsServicesByURI s) uri = Some (l, f)"
  shows "mset (map service_key l) = mset (fwd_keys f) \<and>
     (\<forall>svc \<in> set l. omap_find (itsSentinels s) (backend_id (service_key svc)) \<noteq> None)"
  using services_wf_list [OF reachable_wf [OF assms(1)] assms(2)]
    services_wf_sentinel [OF reachable_wf [OF assms(1)] assms(2)]
  by (auto simp: list_ok_def)

text \<open>
  C9. A request for a URI with listed services is answered with one of them, whatever
  operations went before, as soon as the forwarder is ready: no exception, no index
  outside the list.
\<close>

theorem getService_answers:
  assumes "table_reachable P ops s"
    and "omap_find (itsServicesByURI s) (translate P (itsPrefixMap s) (getResource r)) = Some (l, f)"
    and "l \<noteq> []" and "fwd_ready P (requestStatus E) f"
  shows "\<exists>svc \<in> set l. fst (getService P E r s) = Inr (Some svc)"
proof -
  have "mset (map service_key l) = mset (fwd_keys f)"
    using services_wf_list [OF reachable_wf [OF assms(1)] assms(2)] by (simp add: list_ok_def)
  from fw.pick_in_table [OF this assms(3,4)] obtain i
    where i: "i < length l" "fst (fwd_getBackend P (requestStatus E) r f) = Inr i" by blast
  then have "fst (getService P E r s) = Inr (Some (l ! i))"
    using assms(2,3) by (simp add: getService_def choose_backend_def Let_def case_prod_beta)
  with i(1) show ?thesis by auto
qed

theorem getService_answers_witness:
  "\<exists>svc \<in> {sample_service ''a'' 1, sample_service ''b'' 1}.
     fst (getService reference_platform sample_env sample_request (sample_table ''leastconnections'')) = Inr (Some svc)"
proof -
  obtain f where f: "omap_find (itsServicesByURI (sample_table ''leastconnections'')) ''/wms'' =
      Some ([sample_service ''a'' 1, sample_service ''b'' 1], f)"
    "fwd_mode f = LeastConnections" "length (itsBackendInfos f) = 2" "fwd_wf f"
    by (simp add: sample_table_eq new_forwarder_def)
  have tr: "translate reference_platform (itsPrefixMap (sample_table ''leastconnections'')) (getResource sample_request) = ''/wms''"
    by (simp add: sample_table_eq empty_services_def translate_def sample_request_def)
  have ready: "fwd_ready reference_platform (requestStatus sample_env) f"
    using f by (simp add: fwd_ready_def strategy_ready_def platform_ok_def reference_uniform reference_discrete)
  from getService_answers [OF sample_table_reachable f(1) [folded tr] _ ready] show ?thesis by simp
qed

text \<open>
  A request is refused without an exception exactly if its translated URI is unknown
  or its list is empty.
\<close>

lemma getService_none:
  "fst (getService P E r s) = Inr None \<longleftrightarrow>
     map_option fst (omap_find (itsServicesByURI s) (translate P (itsPrefixMap s) (getResource r)))
       \<in> {None, Some []}"
  by (auto simp: getService_def choose_backend_def Let_def split: option.split prod.split sum.split)

section \<open>Removing\<close>

text \<open>
  C29. \<open>removeBackend\<close> takes exactly the services of the given host and port (and, unless it
  is empty, of the given URI) out of every list, keeps the order of the others, and kills
  the process exactly if that leaves no service anywhere.
\<close>

theorem removeBackend_exact:
  "map_option fst (omap_find (itsServicesByURI (snd (removeBackend P E h p u s))) uri) =
     map_option (\<lambda>e. [svc \<leftarrow> fst e. \<not> (service_key svc = (h, p) \<and> u \<in> {[], URI svc})])
       (omap_find (itsServicesByURI s) uri) \<and>
   (fst (removeBackend P E h p u s) = Killed) =
     (concat (map (\<lambda>e. [svc \<leftarrow> fst (snd e). \<not> (service_key svc = (h, p) \<and> u \<in> {[], URI svc})])
        (itsServicesByURI s)) = [])"
proof -
  have here: "(\<lambda>x. \<not> remove_here h p u x) = (\<lambda>svc. \<not> (service_key svc = (h, p) \<and> u \<in> {[], URI svc}))"
    by (auto simp: remove_here_def service_key_def fun_eq_iff)
  have kept: "fst (case e of (l, f) \<Rightarrow> erase_loop (remove_here h p u) (\<lambda>it f. f) (fwd_retire P E) l f) =
      filter (\<lambda>x. \<not> remove_here h p u x) (fst e)" for e
    by (simp add: case_prod_beta)
  have lists: "map_option fst (omap_find (itsServicesByURI (snd (removeBackend P E h p u s))) uri) =
      map_option (\<lambda>e. filter (\<lambda>x. \<not> remove_here h p u x) (fst e)) (omap_find (itsServicesByURI s) uri)"
    unfolding find_removeBackend by (simp add: option.map_comp comp_def kept)
  have "(\<exists>(uri, l, f) \<in> set (fst (remove_lists P E h p u (itsServicesByURI s) (itsPrefixMap s))). l \<noteq> []) =
      (\<exists>e \<in> set (itsServicesByURI s). filter (\<lambda>x. \<not> remove_here h p u x) (fst (snd e)) \<noteq> [])"
    by (simp add: remove_lists_eq omap_update_def case_prod_beta del: filter_empty_conv)
  then have "(fst (removeBackend P E h p u s) = Killed) =
      (concat (map (\<lambda>e. filter (\<lambda>x. \<not> remove_here h p u x) (fst (snd e))) (itsServicesByURI s)) = [])"
    by (simp add: removeBackend_def Let_def case_prod_beta del: filter_empty_conv)
  with lists show ?thesis unfolding here by blast
qed

text \<open>
  \<open>latestSequence\<close> keeps exactly the services and info requests that carry the given
  sequence number, in their order.
\<close>

lemma latestSequence_exact:
  "map_option fst (omap_find (itsServicesByURI (snd (latestSequence P E n s))) uri) =
     map_option (\<lambda>e. [svc \<leftarrow> fst e. SequenceNumber svc = n]) (omap_find (itsServicesByURI s) uri) \<and>
   omap_find (itsBackendInfoRequests (snd (latestSequence P E n s))) name =
     map_option (filter (\<lambda>req. reqSequenceNumber req = n)) (omap_find (itsBackendInfoRequests s) name)"
proof -
  have "fst (prune_list P E n e) = [svc \<leftarrow> fst e. SequenceNumber svc = n]" for e
    by (cases e) (simp add: fst_prune_list)
  then show ?thesis
    by (simp add: find_latestSequence option.map_comp comp_def)
      (simp add: latestSequence_def map_of_omap_update)
qed

text \<open>
  C24. A backend taken out by \<open>removeBackend\<close> (of all its URIs) answers no request any more,
  whatever operations follow, until it announces a service again.
\<close>

theorem removed_backend_never_answers:
  assumes "run (table_exec P) ops (snd (removeBackend P E h p [] s)) = Some s'"
    and "list_all (\<lambda>op. \<not> announces (h, p) op) ops"
    and "fst (getService P E' r s') = Inr (Some svc)"
  shows "service_key svc \<noteq> (h, p)"
proof -
  have "\<forall>svc. listed (snd (removeBackend P E h p [] s)) svc \<longrightarrow> service_key svc \<noteq> (h, p)"
    by (simp add: listed_removeBackend remove_here_def service_key_def)
  from table_gone.run_kept [OF assms(1) this assms(2)] getService_listed [OF assms(3)]
  show ?thesis by blast
qed

theorem removed_backend_never_answers_witness:
  "service_key (sample_service ''b'' 1) \<noteq> (''a'', 80)"
proof (rule removed_backend_never_answers
    [where P = reference_platform and E = sample_env and E' = sample_env and r = sample_request
      and ops = "[OpSignalBackendConnection ''b'' 80]" and s = "sample_table ''random''"])
  let ?s = "snd (removeBackend reference_platform sample_env ''a'' 80 [] (sample_table ''random''))"
  let ?t = "signalBackendConnection ''b'' 80 ?s"
  show "run (table_exec reference_platform) [OpSignalBackendConnection ''b'' 80] ?s = Some ?t" by simp
  show "fst (getService reference_platform sample_env sample_request ?t) = Inr (Some (sample_service ''b'' 1))"
    by (simp add: sample_table_eq removeBackend_def remove_from_def remove_here_def empty_services_def Let_def
        signalBackendConnection_def getService_def choose_backend_def translate_def sample_request_def backend_id_def
        sample_port fwd_retire_def fwd_getBackend_def random_getBackend_def reference_platform_def
        numeric_cast_size_def new_forwarder_def new_backend_info_def)
qed simp

section \<open>Throttling\<close>

text \<open>
  C25. After a backend announced a service with throttle t, it counts as alive along any run
  in which it neither announces again nor shows a sign of life, exactly while t is 0 or the
  32-bit count of the connections signalled to it is at most t; no other operation, and no
  other backend, has a part in it.
\<close>

theorem throttled_along_runs:
  assumes "run (table_exec P) ops (snd (addService P E (Some svc) uri w t s)) = Some s'"
    and "service_key svc = (h, p)" and "list_all (\<lambda>op. \<not> acknowledges (h, p) op) ops"
  shows "queryBackendAlive h p s' \<longleftrightarrow>
     t = 0 \<or> length (filter (signals (h, p)) ops) mod 2 ^ 32 \<le> unat t"
proof -
  let ?n = "length (filter (signals (h, p)) ops)"
  have "sentinel_of (h, p) s' = Some ((signalSentConnection ^^ ?n) (new_sentinel t))"
    using sentinel_of_run [OF assms(1,3)] assms(2) by simp
  moreover have "new_sentinel t = setAlive (new_sentinel t)"
    by (simp add: ht.ack_fresh ht.limit_fresh)
  then have "getAlive ((signalSentConnection ^^ ?n) (new_sentinel t)) \<longleftrightarrow> t = 0 \<or> ?n mod 2 ^ 32 \<le> unat t"
    using alive_after_signals [of ?n "new_sentinel t"] by (simp only: ht.limit_fresh)
  ultimately show ?thesis by (simp add: queryBackendAlive_sentinel)
qed

theorem throttled_along_runs_witness:
  "\<not> queryBackendAlive ''a'' 80
     (signalBackendConnection ''a'' 80 (signalBackendConnection ''b'' 80 (signalBackendConnection ''a'' 80
        (snd (addService reference_platform sample_env (Some (sample_service ''a'' 1)) ''/wms'' (Fin 0) 1
           (sample_table ''random''))))))"
  using throttled_along_runs [where P = reference_platform and E = sample_env and svc = "sample_service ''a'' 1"
      and uri = "''/wms''" and w = "Fin 0" and t = 1 and s = "sample_table ''random''" and h = "''a''" and p = 80
      and ops = "[OpSignalBackendConnection ''a'' 80, OpSignalBackendConnection ''b'' 80,
                  OpSignalBackendConnection ''a'' 80]"]
  by simp

section \<open>The backend the forwarder meant\<close>

text \<open>
  The two lists of a URI stay in step through every operation as long as replies arrive in
  order.
\<close>

lemma lists_stay_aligned:
  assumes "aligned s" and "in_order op s" and "table_exec P op s = Some s'"
    and "omap_find (itsServicesByURI s') uri = Some (l, f)"
  shows "map service_key l = fwd_keys f"
  using alignedD [OF aligned_exec [OF assms(1-3)] assms(4)] .

lemma info_count_by_key: "info_count st i = connection_count st (fst (info_key i)) (snd (info_key i))"
  by (simp add: info_count_def info_key_def)

text \<open>
  C23. While the lists are in step, the service of a URI balanced by the least connections is
  one whose backend has the least number of active requests among all the listed ones.
\<close>

theorem getService_least_connections:
  assumes "aligned s"
    and "omap_find (itsServicesByURI s) (translate P (itsPrefixMap s) (getResource r)) = Some (l, f)"
    and "fwd_mode f = LeastConnections" and "l \<noteq> []" and "fwd_ready P (requestStatus E) f"
  shows "\<exists>svc \<in> set l. fst (getService P E r s) = Inr (Some svc) \<and>
     (\<forall>other \<in> set l. connection_count (requestStatus E) (fst (service_key svc)) (snd (service_key svc)) \<le>
        connection_count (requestStatus E) (fst (service_key other)) (snd (service_key other)))"
proof -
  let ?st = "requestStatus E" and ?infos = "itsBackendInfos f"
  let ?count = "\<lambda>k. connection_count ?st (fst k) (snd k)"
  have keys: "map service_key l = map info_key ?infos"
    using alignedD [OF assms(1,2)] by (simp add: fwd_keys_def)
  then have len: "length l = length ?infos" by (metis length_map)
  with assms(4) have ne: "?infos \<noteq> []" by auto
  obtain i where i: "i < length ?infos" "fst (fwd_getBackend P ?st r f) = Inr i"
    "\<forall>j \<in> set ?infos. info_count ?st (?infos ! i) \<le> info_count ?st j"
    using least_connections_answer [OF _ _ assms(3) ne, of P ?st r] assms(5)
    by (auto simp: fwd_ready_def platform_ok_def)
  have key: "service_key (l ! i) = info_key (?infos ! i)" using i(1) len keys by (metis nth_map)
  have "?count (service_key (l ! i)) \<le> ?count k" if "k \<in> set (map service_key l)" for k
    using that i(3) unfolding keys key by (auto simp: info_count_by_key)
  moreover have "fst (getService P E r s) = Inr (Some (l ! i))"
    using getService_at [OF assms(2) i(2)] i(1) len by simp
  ultimately show ?thesis using i(1) len by (intro bexI [of _ "l ! i"]) auto
qed

theorem getService_least_connections_witness:
  "\<exists>svc \<in> {sample_service ''a'' 1, sample_service ''b'' 1}.
     fst (getService reference_platform (sample_env\<lparr>requestStatus := sample_status\<rparr>) sample_request
            (sample_table ''leastconnections'')) = Inr (Some svc) \<and>
     connection_count sample_status (fst (service_key svc)) (snd (service_key svc)) \<le> 0"
proof -
  let ?s = "sample_table ''leastconnections''" and ?E = "sample_env\<lparr>requestStatus := sample_status\<rparr>"
  let ?l = "[sample_service ''a'' 1, sample_service ''b'' 1]"
  obtain f where f: "omap_find (itsServicesByURI ?s) ''/wms'' = Some (?l, f)"
    "fwd_mode f = LeastConnections" "length (itsBackendInfos f) = 2" "fwd_wf f"
    by (simp add: sample_table_eq new_forwarder_def)
  have tr: "translate reference_platform (itsPrefixMap ?s) (getResource sample_request) = ''/wms''"
    by (simp add: sample_table_eq empty_services_def translate_def sample_request_def)
  have ready: "fwd_ready reference_platform (requestStatus ?E) f"
    using f by (simp add: fwd_ready_def strategy_ready_def platform_ok_def reference_uniform reference_discrete)
  have al: "aligned ?s"
    by (auto simp: aligned_def in_step_def sample_table_eq new_forwarder_def)
  from getService_least_connections [OF al f(1) [folded tr] f(2) _ ready] show ?thesis
    by (auto simp: connection_count_def sample_status_def)
qed

section \<open>Late replies\<close>

text \<open>The loop that erases only the last entry.\<close>

lemma erase_loop_last:
  "\<forall>x \<in> set xs. \<not> gone x \<Longrightarrow> gone y \<Longrightarrow> erase_loop gone (\<lambda>x f. f) del (xs @ [y]) f = (xs, del y f)"
  by (induction xs) auto

lemma late_entry_pruned:
  assumes "omap_find (itsServicesByURI s) u = Some (l, f)"
    and "\<forall>svc \<in> set l. SequenceNumber svc = n" and "SequenceNumber late \<noteq> n"
  shows "\<exists>f'. omap_find (itsServicesByURI (snd (latestSequence P E' n (snd (addService P E (Some late) u w t s))))) u =
      Some (l, f') \<and> fwd_keys f' = remove1 (service_key late) (fwd_keys f @ [service_key late])"
proof -
  let ?f = "fwd_retire P E' late (fwd_addBackend P (requestStatus E) (Name (Backend late)) (Port (Backend late)) w f)"
  have "prune_list P E' n (l @ [late], g) = (l, fwd_retire P E' late g)" for g
    unfolding prune_list_def prod.case by (rule erase_loop_last) (use assms(2,3) in auto)
  moreover have "fwd_keys ?f = remove1 (service_key late) (fwd_keys f @ [service_key late])"
    by (simp add: fwd_retire_def fwd_keys_add fwd_keys_remove service_key_def)
  ultimately show ?thesis using assms(1)
    by (intro exI [of _ ?f]) (simp add: find_latestSequence find_add_to_list)
qed

lemma rotated_differs:
  assumes "distinct (c # ys)" and "ys \<noteq> []" and "j \<le> length ys"
  shows "(c # ys) ! j \<noteq> (ys @ [c]) ! j"
proof (cases j)
  case 0
  with assms show ?thesis by (cases ys) auto
next
  case (Suc k)
  with assms have "k < length ys" "c \<notin> set ys" "distinct ys" by auto
  with Suc assms(3) show ?thesis
    by (cases "Suc k < length ys") (auto simp: nth_append nth_eq_iff_index_eq)
qed

text \<open>
  C37. Out of order the lists do come apart. Let a URI list services of the round, each
  backend once and in step with its forwarder, and let a late reply of another round announce one of
  these backends, \<open>cur\<close>, again, behind which others are listed. The next \<open>latestSequence\<close> takes
  the late entry out of the table, and the entry of the round out of the forwarder: the
  table has the backends in their old order, the forwarder has \<open>cur\<close> at the end. Each
  request for which the forwarder chooses one of the positions from that of \<open>cur\<close> on is
  answered with another backend than the one it chose.
\<close>

theorem late_reply_misaligns:
  assumes "omap_find (itsServicesByURI s) u = Some (xs @ cur # ys, f)"
    and "map service_key (xs @ cur # ys) = fwd_keys f" and "distinct (fwd_keys f)" and "ys \<noteq> []"
    and "\<forall>svc \<in> set (xs @ cur # ys). SequenceNumber svc = n"
    and "service_key late = service_key cur" and "SequenceNumber late \<noteq> n"
    and "s' = snd (latestSequence P E' n (snd (addService P E (Some late) u w t s)))"
  shows "\<exists>f'. omap_find (itsServicesByURI s') u = Some (xs @ cur # ys, f') \<and>
     fwd_keys f' = map service_key (xs @ ys @ [cur]) \<and>
     (\<forall>E r i. translate P (itsPrefixMap s') (getResource r) = u \<and>
        fst (fwd_getBackend P (requestStatus E) r f') = Inr i \<and> length xs \<le> i \<and> i \<le> length xs + length ys \<longrightarrow>
        (\<exists>svc. fst (getService P E r s') = Inr (Some svc) \<and> service_key svc \<noteq> fwd_keys f' ! i))"
proof -
  obtain f' where f': "omap_find (itsServicesByURI s') u = Some (xs @ cur # ys, f')"
    "fwd_keys f' = remove1 (service_key late) (fwd_keys f @ [service_key late])"
    using late_entry_pruned [OF assms(1,5,7)] assms(8) by blast
  have "service_key cur \<notin> set (map service_key xs)" using assms(3) unfolding assms(2) [symmetric] by auto
  then have keys: "fwd_keys f' = map service_key (xs @ ys @ [cur])"
    unfolding f'(2) assms(2) [symmetric] assms(6) by (simp add: remove1_append)
  have "\<exists>svc. fst (getService P E r s') = Inr (Some svc) \<and> service_key svc \<noteq> fwd_keys f' ! i"
    if r: "translate P (itsPrefixMap s') (getResource r) = u" "fst (fwd_getBackend P (requestStatus E) r f') = Inr i"
      and i: "length xs \<le> i" "i \<le> length xs + length ys" for E r i
  proof (intro exI conjI)
    show "fst (getService P E r s') = Inr (Some ((xs @ cur # ys) ! i))"
      by (rule getService_at [OF f'(1) [folded r(1)] r(2)]) (use i in simp)
    let ?ks = "map service_key ys" and ?j = "i - length xs"
    have "distinct (service_key cur # ?ks)" using assms(3) unfolding assms(2) [symmetric] by simp
    from rotated_differs [OF this, of ?j] assms(4) i(2)
    have "(service_key cur # ?ks) ! ?j \<noteq> (?ks @ [service_key cur]) ! ?j" by simp
    moreover have "fwd_keys f' ! i = (?ks @ [service_key cur]) ! ?j" using i by (simp add: keys nth_append)
    moreover have "service_key ((xs @ cur # ys) ! i) = (service_key cur # ?ks) ! ?j"
      using i by (simp add: nth_append nth_Cons split: nat.split)
    ultimately show "service_key ((xs @ cur # ys) ! i) \<noteq> fwd_keys f' ! i" by simp
  qed
  with f'(1) keys show ?thesis by blast
qed

theorem late_reply_misaligns_witness:
  "map_option (\<lambda>(l, f). (map service_key l, fwd_keys f))
     (omap_find (itsServicesByURI (snd (latestSequence reference_platform sample_env 1
        (snd (addService reference_platform sample_env (Some (sample_service ''a'' 0)) ''/wms'' (Fin 0) 5
           (sample_table ''random'')))))) ''/wms'') =
   Some ([(''a'', 80), (''b'', 80)], [(''b'', 80), (''a'', 80)])"
proof -
  obtain f where f: "omap_find (itsServicesByURI (sample_table ''random'')) ''/wms'' =
      Some ([] @ sample_service ''a'' 1 # [sample_service ''b'' 1], f)"
    "fwd_keys f = [(''a'', 80), (''b'', 80)]"
    by (simp add: sample_table_eq fwd_keys_add new_forwarder_def) (simp add: fwd_keys_def)
  from late_reply_misaligns [OF f(1), of 1 "sample_service ''a'' 0" _ reference_platform sample_env sample_env "Fin 0" 5,
      OF _ _ _ _ _ _ refl] f(2)
  show ?thesis by auto
qed

section \<open>Prefixes\<close>

lemma itsPrefixMap_removeBackend:
  "itsPrefixMap (snd (removeBackend P E h p u s)) =
     foldl (\<lambda>pm it. prefix_removeBackend u it pm) (itsPrefixMap s) (concat (map (fst \<circ> snd) (itsServicesByURI s)))"
  by (simp add: removeBackend_def remove_lists_eq Let_def)

lemma ids_of_removals:
  "ids_of (foldl (\<lambda>pm it. prefix_removeBackend u it pm) pm its) =
     (ids_of pm)(u := ids_of pm u - backend_service_id u ` set its)"
  by (induction its arbitrary: pm) (auto simp: ids_of_remove fun_eq_iff)

lemma listed_in_table: "listed s svc \<Longrightarrow> svc \<in> set (concat (map (fst \<circ> snd) (itsServicesByURI s)))"
proof -
  assume "listed s svc"
  then obtain u where u: "svc \<in> set (list_at s u)" by (auto simp: listed_def)
  then obtain l f where "omap_find (itsServicesByURI s) u = Some (l, f)" "svc \<in> set l"
    by (cases "omap_find (itsServicesByURI s) u") (auto simp: list_at_def uri_list_def)
  then have "(u, l, f) \<in> set (itsServicesByURI s)" by (simp add: map_of_SomeD)
  with \<open>svc \<in> set l\<close> show ?thesis by force
qed

text \<open>
  C38. \<open>removeBackend\<close> with a URI takes every announcement of that prefix back, whichever
  backend it is called for. If the announcements of the prefix \<open>u\<close> are those of listed
  services, then after it \<open>u\<close> is no prefix any more, while the services of the other
  backends stay in their lists. A request below \<open>u\<close> is refused from then on,
  unless a list or another prefix is there for it.
\<close>

theorem removeBackend_drops_prefix:
  assumes "starts_with_law P" and "table_reachable P ops s"
    and "\<forall>id \<in> ids_of (itsPrefixMap s) u. \<exists>svc. listed s svc \<and> id = backend_service_id u svc"
    and "s' = snd (removeBackend P E h p u s)"
  shows "ids_of (itsPrefixMap s') = (ids_of (itsPrefixMap s))(u := {}) \<and>
     (\<forall>v. \<forall>svc \<in> set (list_at s v). service_key svc \<noteq> (h, p) \<longrightarrow> svc \<in> set (list_at s' v)) \<and>
     (\<forall>E' r. list_at s (getResource r) = [] \<and>
        (\<forall>q. prefix q (getResource r) \<and> q \<noteq> u \<longrightarrow> ids_of (itsPrefixMap s) q = {}) \<longrightarrow>
        fst (getService P E' r s') = Inr None)"
proof (intro conjI allI ballI impI)
  let ?its = "concat (map (fst \<circ> snd) (itsServicesByURI s))"
  have "ids_of (itsPrefixMap s) u - backend_service_id u ` set ?its = {}"
    using assms(3) listed_in_table [of s] by blast
  then show ids: "ids_of (itsPrefixMap s') = (ids_of (itsPrefixMap s))(u := {})"
    unfolding assms(4) itsPrefixMap_removeBackend ids_of_removals by (simp only:)
  have lists: "list_at s' v = filter (\<lambda>it. \<not> remove_here h p u it) (list_at s v)" for v
    by (simp add: assms(4) list_at_def uri_list_removeBackend split: option.split)
  show "svc \<in> set (list_at s' v)" if "svc \<in> set (list_at s v)" "service_key svc \<noteq> (h, p)" for v svc
    using that by (auto simp: lists remove_here_def service_key_def)
  fix E' and r :: http_request
  assume r: "list_at s (getResource r) = [] \<and>
     (\<forall>q. prefix q (getResource r) \<and> q \<noteq> u \<longrightarrow> ids_of (itsPrefixMap s) q = {})"
  have "services_wf s'" unfolding assms(4) by (rule services_wf_removeBackend [OF reachable_wf [OF assms(2)]])
  then have wf: "prefix_wf (itsPrefixMap s')" by (simp add: services_wf_def)
  have "translate P (itsPrefixMap s') (getResource r) = getResource r"
    by (rule pt.tr_none) (use assms(1) wf r in \<open>auto simp: ids\<close>)
  then show "fst (getService P E' r s') = Inr None"
    using r lists [of "getResource r"]
    by (auto simp: getService_none list_at_def uri_list_def split: option.splits)
qed

definition sample_prefix_service :: "string \<Rightarrow> backend_service" where
  "sample_prefix_service h = (sample_service h 1)\<lparr>URI := ''/edr'', DefinesPrefix := True\<rparr>"

lemma sample_prefix_service_fields [simp]:
  "service_key (sample_prefix_service h) = (h, 80)" "SequenceNumber (sample_prefix_service h) = 1"
  "URI (sample_prefix_service h) = ''/edr''" "DefinesPrefix (sample_prefix_service h) = True"
  "Name (Backend (sample_prefix_service h)) = h" "Port (Backend (sample_prefix_service h)) = 80"
  by (simp_all add: sample_prefix_service_def sample_service_def service_key_def sample_server_def)

definition sample_prefix_add :: "string \<Rightarrow> nat table_op" where
  "sample_prefix_add h =
     OpAddService sample_env (Some (sample_prefix_service h)) ''/edr'' (Fin 0) 5"

text \<open>A table where \<open>a\<close> and \<open>b\<close> have announced the prefix \<open>/edr\<close>.\<close>

definition sample_prefix_table :: "nat services" where
  "sample_prefix_table = the (run (table_exec reference_platform) [sample_prefix_add ''a'', sample_prefix_add ''b'']
     empty_services)"

lemma sample_prefix_reachable:
  "table_reachable reference_platform [sample_prefix_add ''a'', sample_prefix_add ''b''] sample_prefix_table"
  by (simp add: table_reachable_def sample_prefix_table_def sample_prefix_add_def)

lemma sample_prefix_lists:
  "list_at sample_prefix_table v =
     (if v = ''/edr'' then [sample_prefix_service ''a'', sample_prefix_service ''b''] else [])"
proof -
  have "list_at (empty_services :: nat services) v = []"
    by (simp add: list_at_def uri_list_def empty_services_def)
  then show ?thesis
    by (auto simp: sample_prefix_table_def sample_prefix_add_def list_at_def uri_list_addService split: option.splits)
qed

lemma sample_prefix_ids:
  "ids_of (itsPrefixMap sample_prefix_table) q =
     (if q = ''/edr'' then {backend_service_id q (sample_prefix_service ''a''), backend_service_id q (sample_prefix_service ''b'')}
      else {})"
  by (simp add: sample_prefix_table_def sample_prefix_add_def ids_of_add empty_services_def)
    (auto simp: ids_of_def)

lemma sample_prefix_listed: "listed sample_prefix_table svc \<longleftrightarrow> svc \<in> {sample_prefix_service ''a'', sample_prefix_service ''b''}"
  by (auto simp: listed_def sample_prefix_lists split: if_splits)

theorem removeBackend_drops_prefix_witness:
  "let s = snd (removeBackend reference_platform sample_env ''a'' 80 ''/edr'' sample_prefix_table)
   in sample_prefix_service ''b'' \<in> set (list_at s ''/edr'') \<and>
      fst (getService reference_platform sample_env (sample_request\<lparr>getResource := ''/edr/x''\<rparr>) s) = Inr None"
proof -
  have "\<forall>id \<in> ids_of (itsPrefixMap sample_prefix_table) ''/edr''. \<exists>svc. listed sample_prefix_table svc \<and>
      id = backend_service_id ''/edr'' svc"
    by (auto simp: sample_prefix_ids sample_prefix_listed)
  from removeBackend_drops_prefix [OF reference_starts_with sample_prefix_reachable this refl, of sample_env "''a''" 80]
  show ?thesis by (simp add: sample_prefix_lists sample_prefix_ids Let_def)
qed

text \<open>
  The operations that leave a prefix as it is: none announces a service under it or another
  prefix before it, none takes announcements of it back.
\<close>

fun leaves_prefix :: "string \<Rightarrow> 'g table_op \<Rightarrow> bool" where
  "leaves_prefix u (OpAddService E (Some svc) v w t) = (v \<noteq> u \<and> (DefinesPrefix svc \<longrightarrow> \<not> prefix v u))"
| "leaves_prefix u (OpRemoveBackend E h p v) = (v \<noteq> u)"
| "leaves_prefix u op = True"

definition captures :: "string \<Rightarrow> 'g services \<Rightarrow> bool" where
  "captures u s \<longleftrightarrow> services_wf s \<and> ids_of (itsPrefixMap s) u \<noteq> {} \<and>
     (\<forall>q. strict_prefix q u \<longrightarrow> ids_of (itsPrefixMap s) q = {}) \<and> list_at s u = []"

lemma captures_lists:
  "captures u s \<Longrightarrow> services_wf s' \<Longrightarrow> itsPrefixMap s' = itsPrefixMap s \<Longrightarrow> list_at s' u = [] \<Longrightarrow> captures u s'"
  by (simp add: captures_def)

lemma list_at_same_lists: "itsServicesByURI s' = itsServicesByURI s \<Longrightarrow> list_at s' = list_at s"
  by (simp add: list_at_def uri_list_def fun_eq_iff)

lemma captures_exec:
  assumes "captures u s" and "leaves_prefix u op" and "table_exec P op s = Some s'"
  shows "captures u s'"
proof -
  have s: "services_wf s" "list_at s u = []" using assms(1) by (simp_all add: captures_def)
  have wf: "services_wf s'" using table_wf.step [OF s(1) _ assms(3)] by simp
  show ?thesis
  proof (cases op)
    case (OpRemoveBackend E h p v)
    with assms(3) table_exec_remove have s': "s' = snd (removeBackend P E h p v s)" by blast
    have "ids_of (itsPrefixMap s') = (ids_of (itsPrefixMap s))(v := ids_of (itsPrefixMap s) v -
        backend_service_id v ` set (concat (map (fst \<circ> snd) (itsServicesByURI s))))"
      unfolding s' itsPrefixMap_removeBackend ids_of_removals ..
    moreover have "list_at s' u = []"
      using s(2) by (auto simp: s' list_at_def uri_list_removeBackend split: option.splits)
    ultimately show ?thesis using assms(1,2) wf OpRemoveBackend by (auto simp: captures_def)
  next
    case (OpAddService E svc v w t)
    show ?thesis
    proof (cases svc)
      case (Some x)
      with assms(3) OpAddService have s': "s' = snd (addService P E (Some x) v w t s)" by simp
      have "list_at s' u = []"
        using s(2) assms(2) OpAddService Some by (auto simp: s' list_at_def uri_list_addService)
      with assms(1,2) wf OpAddService Some show ?thesis
        by (auto simp: captures_def s' ids_of_add strict_prefix_def)
    qed (use assms OpAddService in simp)
  next
    case (OpGetService E r)
    then have s': "s' = snd (getService P E r s)" using assms(3) by simp
    have "list_at s' u = []" using s(2) by (simp add: s' list_at_def uri_list_getService)
    moreover have "itsPrefixMap s' = itsPrefixMap s"
      by (simp add: s' getService_def choose_backend_def Let_def split: option.split prod.split sum.split)
    ultimately show ?thesis using captures_lists [OF assms(1) wf] by blast
  next
    case (OpLatestSequence E n)
    then have s': "s' = snd (latestSequence P E n s)" using assms(3) by simp
    have "list_at s' u = []" using s(2) by (auto simp: s' list_at_def uri_list_latestSequence split: option.splits)
    moreover have "itsPrefixMap s' = itsPrefixMap s" by (simp add: s' latestSequence_def)
    ultimately show ?thesis using captures_lists [OF assms(1) wf] by blast
  next
    case (OpSetForwarding m a c)
    have "itsPrefixMap s' = itsPrefixMap s \<and> itsServicesByURI s' = itsServicesByURI s"
      using assms(3) OpSetForwarding by (auto simp: setForwarding_def split: sum.splits)
    then show ?thesis using captures_lists [OF assms(1) wf] list_at_same_lists s(2) by metis
  next
    case (OpAddBackendInfoRequest req)
    have "itsPrefixMap s' = itsPrefixMap s \<and> itsServicesByURI s' = itsServicesByURI s"
      using assms(3) OpAddBackendInfoRequest by (auto simp: addBackendInfoRequest_def split: option.splits)
    then show ?thesis using captures_lists [OF assms(1) wf] list_at_same_lists s(2) by metis
  next
    case (OpSetBackendAlive h p)
    have "itsPrefixMap s' = itsPrefixMap s \<and> itsServicesByURI s' = itsServicesByURI s"
      using assms(3) OpSetBackendAlive by (auto simp: setBackendAlive_def Let_def split: option.splits)
    then show ?thesis using captures_lists [OF assms(1) wf] list_at_same_lists s(2) by metis
  next
    case (OpSignalBackendConnection h p)
    have "itsPrefixMap s' = itsPrefixMap s \<and> itsServicesByURI s' = itsServicesByURI s"
      using assms(3) OpSignalBackendConnection by (auto simp: signalBackendConnection_def Let_def split: option.splits)
    then show ?thesis using captures_lists [OF assms(1) wf] list_at_same_lists s(2) by metis
  qed
qed

interpretation table_captured: kept_by_runs "table_exec P" "leaves_prefix u" "captures u" for P u
  by standard (rule captures_exec)

lemma captured_request_refused:
  assumes "starts_with_law P" and "captures u s" and "prefix u (getResource r)"
  shows "fst (getService P E r s) = Inr None"
proof -
  have "translate P (itsPrefixMap s) (getResource r) = u"
  proof (rule pt.tr_unique)
    show "prefix u q" if "prefix q (getResource r)" "ids_of (itsPrefixMap s) q \<noteq> {}" for q
      using that assms(2,3) prefix_same_cases [OF that(1) assms(3)] by (auto simp: captures_def strict_prefix_def)
  qed (use assms in \<open>simp_all add: captures_def services_wf_def\<close>)
  with assms(2) show ?thesis
    by (auto simp: captures_def getService_none list_at_def uri_list_def split: option.splits)
qed

text \<open>
  C39. \<open>latestSequence\<close> prunes the lists and not the prefixes: a prefix whose services are all
  out of date still captures the requests below it afterwards. Every such request is refused,
  whatever operations follow, until a service is announced under that prefix (or a
  shorter one is) or its announcements are taken back: announcing the very URI of the
  request does not help.
\<close>

theorem stale_prefix_captures:
  assumes "starts_with_law P" and "table_reachable P ops0 s"
    and "ids_of (itsPrefixMap s) u \<noteq> {}" and "translate P (itsPrefixMap s) u = u"
    and "\<forall>svc \<in> set (list_at s u). SequenceNumber svc \<noteq> n"
    and "run (table_exec P) ops (snd (latestSequence P E n s)) = Some s'" and "list_all (leaves_prefix u) ops"
    and "prefix u (getResource r)"
  shows "fst (getService P E' r s') = Inr None"
proof -
  let ?s = "snd (latestSequence P E n s)"
  note wf = reachable_wf [OF assms(2)]
  have "ids_of (itsPrefixMap s) q = {}" if "strict_prefix q u" for q
    using translate_cases [OF assms(1), of "itsPrefixMap s" u] wf that assms(3,4)
    by (auto simp: services_wf_def strict_prefix_def dest: prefix_order.antisym)
  moreover have "list_at ?s u = []"
    using assms(5) by (auto simp: list_at_def uri_list_latestSequence filter_empty_conv split: option.splits)
  ultimately have "captures u ?s"
    using assms(3) wf services_wf_latestSequence [OF wf, of P E n] by (simp add: captures_def latestSequence_def)
  from table_captured.run_kept [OF assms(6) this assms(7)]
  show ?thesis by (rule captured_request_refused [OF assms(1) _ assms(8)])
qed

theorem stale_prefix_captures_witness:
  "\<exists>s. run (table_exec reference_platform)
       [OpLatestSequence sample_env 2, OpAddService sample_env (Some (sample_service ''c'' 2)) ''/edr/x'' (Fin 0) 5]
       sample_prefix_table = Some s \<and>
     list_at s ''/edr/x'' = [sample_service ''c'' 2] \<and>
     fst (getService reference_platform sample_env (sample_request\<lparr>getResource := ''/edr/x''\<rparr>) s) = Inr None"
proof -
  let ?op = "OpAddService sample_env (Some (sample_service ''c'' 2)) ''/edr/x'' (Fin 0) 5"
  let ?s = "snd (latestSequence reference_platform sample_env 2 sample_prefix_table)"
  obtain s where s: "run (table_exec reference_platform) [?op] ?s = Some s" by simp
  have "translate reference_platform (itsPrefixMap sample_prefix_table) ''/edr'' = ''/edr''"
    by (rule pt.tr_unique) (use reachable_wf [OF sample_prefix_reachable] reference_starts_with in
        \<open>auto simp: sample_prefix_ids services_wf_def split: if_splits\<close>)
  from stale_prefix_captures [OF reference_starts_with sample_prefix_reachable _ this _ s,
      of "sample_request\<lparr>getResource := ''/edr/x''\<rparr>" sample_env]
  have "fst (getService reference_platform sample_env (sample_request\<lparr>getResource := ''/edr/x''\<rparr>) s) = Inr None"
    by (simp add: sample_prefix_ids sample_prefix_lists)
  moreover have "list_at s ''/edr/x'' = [sample_service ''c'' 2]"
  proof -
    have "list_at s ''/edr/x'' = list_at ?s ''/edr/x'' @ [sample_service ''c'' 2]"
      using s by (auto simp: list_at_def uri_list_addService split: option.split)
    moreover have "list_at ?s ''/edr/x'' = []"
      using sample_prefix_lists [of "''/edr/x''"]
      by (auto simp: list_at_def uri_list_latestSequence split: option.splits)
    ultimately show ?thesis by simp
  qed
  ultimately show ?thesis using s by simp
qed

end
