(* ===== verification/Table_Spec.thy ===== *)
theory Table_Spec
  imports Table_Runs
begin

text \<open>
  What the routing table promises, without forwarders, prefixes or string keys: for every URI
  the services announced for it and not taken away since, in the order of announcement, and
  for every backend its limit and the connections sent since its last sign of life. The
  table implements this specification along every sequence of operations.
\<close>

record table_spec =
  announced :: "string \<Rightarrow> backend_service list"
  unanswered :: "backend_key \<Rightarrow> (32 word \<times> 32 word) option"

definition drop_services :: "(backend_service \<Rightarrow> bool) \<Rightarrow> table_spec \<Rightarrow> table_spec" where
  "drop_services gone t = t\<lparr>announced := \<lambda>u. filter (\<lambda>svc. \<not> gone svc) (announced t u)\<rparr>"

definition recount :: "backend_key \<Rightarrow> (32 word \<Rightarrow> 32 word) \<Rightarrow> table_spec \<Rightarrow> table_spec" where
  "recount k g t =
     t\<lparr>unanswered := (unanswered t)(k := map_option (\<lambda>(limit, n). (limit, g n)) (unanswered t k))\<rparr>"

fun spec_step :: "'g table_op \<Rightarrow> table_spec \<Rightarrow> table_spec" where
  "spec_step (OpRemoveBackend E h p u) t =
     drop_services (\<lambda>svc. service_key svc = (h, p) \<and> (u = [] \<or> u = URI svc)) t"
| "spec_step (OpLatestSequence E n) t = drop_services (\<lambda>svc. SequenceNumber svc \<noteq> n) t"
| "spec_step (OpSetBackendAlive h p) t = recount (h, p) (\<lambda>n. 0) t"
| "spec_step (OpSignalBackendConnection h p) t = recount (h, p) (\<lambda>n. n + 1) t"
| "spec_step (OpAddService E (Some svc) uri theLoad limit) t =
     t\<lparr>announced := (announced t)(uri := announced t uri @ [svc]),
       unanswered := (unanswered t)(service_key svc \<mapsto> (limit, 0))\<rparr>"
| "spec_step op t = t"

definition abs_table :: "'g services \<Rightarrow> table_spec" where
  "abs_table s =
     \<lparr>announced = list_at s,
      unanswered = (\<lambda>k. map_option (\<lambda>s. (sentinelThrottle s, itsCurrentThrottle s)) (sentinel_of k s))\<rparr>"

section \<open>One operation\<close>

lemma abs_cong:
  "itsServicesByURI s' = itsServicesByURI s \<Longrightarrow> itsSentinels s' = itsSentinels s \<Longrightarrow> abs_table s' = abs_table s"
  by (simp add: abs_table_def list_at_def uri_list_def sentinel_of_def fun_eq_iff)

lemma list_at_ops [op_simps]:
  "list_at (snd (getService P E r s)) = list_at s"
  "list_at (snd (removeBackend P E h p u s)) = (\<lambda>x. filter (\<lambda>it. \<not> remove_here h p u it) (list_at s x))"
  "list_at (snd (latestSequence P E n s)) = (\<lambda>x. filter (\<lambda>it. SequenceNumber it = n) (list_at s x))"
  "list_at (snd (addService P E (Some v) uri w t s)) = (list_at s)(uri := list_at s uri @ [v])"
  "list_at (setBackendAlive h p s) = list_at s"
  "list_at (signalBackendConnection h p s) = list_at s"
  by (auto simp: list_at_def uri_list_getService uri_list_removeBackend uri_list_latestSequence
      uri_list_addService uri_list_def [of "setBackendAlive h p s"]
      uri_list_def [of "signalBackendConnection h p s"] uri_list_def [symmetric] fun_eq_iff
      split: option.split)

lemma abs_exec:
  assumes "table_exec P op s = Some s'"
  shows "abs_table s' = spec_step op (abs_table s)"
proof (cases op)
  case (OpRemoveBackend E h p u)
  with assms table_exec_remove have "s' = snd (removeBackend P E h p u s)" by blast
  then show ?thesis
    by (simp add: OpRemoveBackend abs_table_def op_simps drop_services_def remove_here_def service_key_def)
next
  case (OpAddService E v uri w t)
  with assms show ?thesis
    by (cases v) (auto simp: abs_table_def op_simps new_sentinel_def fun_eq_iff)
next
  case (OpAddBackendInfoRequest req)
  have "abs_table (snd (addBackendInfoRequest req s)) = abs_table s"
    by (rule abs_cong) (simp_all add: addBackendInfoRequest_def split: option.split)
  with assms OpAddBackendInfoRequest show ?thesis by simp
next
  case (OpSetForwarding m a c)
  have "abs_table s1 = abs_table s" if "setForwarding m a c s = Inr s1" for s1
    by (rule abs_cong) (rule setForwarding_fields [OF that])+
  with assms OpSetForwarding show ?thesis by (auto split: sum.splits)
qed (use assms in \<open>auto simp: abs_table_def op_simps drop_services_def recount_def fun_eq_iff
      setAlive_def signalSentConnection_def option.map_comp comp_def\<close>)

section \<open>Refinement\<close>

text \<open>
  C1. The routing table implements its specification: after any sequence of operations that
  the process survives, every list and every count is what the specification computes from
  the operations alone.
\<close>

theorem table_refines_spec:
  assumes "run (table_exec P) ops s = Some s'"
  shows "abs_table s' = fold spec_step ops (abs_table s)"
  using assms
proof (induction ops arbitrary: s)
  case (Cons op ops)
  then show ?case by (auto simp: abs_exec split: option.splits)
qed simp

theorem table_refines_spec_witness:
  "map service_key (announced (abs_table (sample_table ''random'')) ''/wms'') = [(''a'', 80), (''b'', 80)] \<and>
   unanswered (abs_table (sample_table ''random'')) (''a'', 80) = Some (5, 0)"
  using table_refines_spec [OF sample_table_reachable [of "''random''", unfolded table_reachable_def]]
  by (simp add: sample_add_def abs_table_def list_at_def uri_list_def empty_services_def)

end
