(* ===== verification/Messages.thy ===== *)
theory Messages
  imports Table_Runs
begin

text \<open>
  The messages of BroadcastMessage.proto and their processing (sputnik/Messages.cpp): what a
  frontend asks, what a backend answers, and what an answer does to the routing table. The
  encoding of a message as bytes is Protocol Buffers' (\<open>wire\<close>), a parameter.
\<close>

section \<open>BroadcastMessage.proto\<close>

datatype message_type =
    SERVICE_DISCOVERY_REQUEST
  | SERVICE_DISCOVERY_REPLY
  | SERVICE_DISCOVERY_BEACON

text \<open>An optional field is an \<open>option\<close>; reading an absent \<open>throttle\<close> gives 0.\<close>

record host_info =
  host_ip :: string
  host_port :: int
  host_comment :: string
  host_load :: f32
  host_throttle :: "int option"

record service_msg =
  svc_uri :: string
  lastupdate :: int
  allowcache :: bool
  is_prefix :: "bool option"

record info_query =
  query_name :: string
  query_lastupdate :: int

record broadcast_message =
  msg_name :: string
  messagetype :: message_type
  seqnum :: int
  host :: "host_info option"
  services_of :: "service_msg list"
  infoQuery :: "info_query list"

definition throttle_of :: "host_info \<Rightarrow> int" where
  "throttle_of h = (case host_throttle h of None \<Rightarrow> 0 | Some n \<Rightarrow> n)"

definition is_prefix_of :: "service_msg \<Rightarrow> bool" where
  "is_prefix_of service = (case is_prefix service of None \<Rightarrow> False | Some b \<Rightarrow> b)"

text \<open>
  \<open>ParseFromString\<close> answers whether the bytes are a complete message, and in any case what
  the message object then holds; \<open>SerializeToString\<close> gives the bytes.
\<close>

record wire =
  ParseFromString :: "string \<Rightarrow> bool \<times> broadcast_message"
  SerializeToString :: "broadcast_message \<Rightarrow> string"

text \<open>
  The message object of a parse that set no field (a rejected or empty packet): the first
  enumeration value, empty strings, zeros.
\<close>

definition default_message :: broadcast_message where
  "default_message =
     \<lparr>msg_name = [], messagetype = SERVICE_DISCOVERY_REQUEST, seqnum = 0, host = None,
      services_of = [], infoQuery = []\<rparr>"

section \<open>Readings\<close>

text \<open>
  \<open>Reactor::isShuttingDown()\<close> is read at several places of one handler and may turn true
  between them: one reading per place.
\<close>

datatype shutdown_site =
    AtDeadline | InRequest | InProcessReply
  | AtBackendRead | AfterParse | InProcessRequest | InReply | BeforeURIMap | BeforeAdminRequests

text \<open>
  What a handler reads from the reactor, the system and the clock. \<open>tableEnv n\<close> are the
  readings of the n-th \<open>addService\<close> of one reply (of \<open>latestSequence\<close>: number 0).
\<close>

record 'g engine_env =
  tableEnv :: "nat \<Rightarrow> 'g env"
  isShuttingDown :: "shutdown_site \<Rightarrow> bool"
  getURIMap :: "string list" \<comment> \<open>the keys of \<open>Reactor::getURIMap()\<close>\<close>
  isURIPrefix :: "string \<Rightarrow> bool"
  getAdminRequestNames :: "string list"
  isLoadHigh :: bool
  getloadavg :: real
  hardware_concurrency :: "32 word"
  universal_time :: int \<comment> \<open>\<open>Fmi::MicrosecClock::universal_time()\<close>, in microseconds\<close>

section \<open>Conversions\<close>

definition numeric_cast_unsigned :: "int \<Rightarrow> exn + 32 word" where
  "numeric_cast_unsigned n = (if n < 0 then Inl NumericCast else Inr (of_int n))"

definition numeric_cast_int32 :: "32 word \<Rightarrow> exn + int" where
  "numeric_cast_int32 n = (if 2 ^ 31 \<le> uint n then Inl NumericCast else Inr (uint n))"

text \<open>
  \<open>getloadavg(&currentLoad, 1); currentLoad /= corenum; numeric_cast<float>(currentLoad)\<close>:
  the quotient is a \<open>double\<close>, the cast throws beyond the largest \<open>float\<close> and rounds below.
  The number of cores is 0 where it is not known: the quotient is then not a number or
  infinite.
\<close>

definition flt_max :: real where
  "flt_max = (2 - 1 / 2 ^ 23) * 2 ^ 127"

definition per_core_load :: "real \<Rightarrow> 32 word \<Rightarrow> exn + f32" where
  "per_core_load currentLoad corenum =
     (if corenum = 0 then (if currentLoad = 0 then Inr NaN else Inl NumericCast)
      else (let quotient = rne 53 1074 (currentLoad / of_nat (unat corenum))
            in if \<bar>quotient\<bar> > flt_max then Inl NumericCast else Inr (f32_round quotient)))"

section \<open>The backend\<close>

definition reply_service :: "(string \<Rightarrow> bool) \<Rightarrow> string \<Rightarrow> service_msg" where
  "reply_service isPrefix handler =
     \<lparr>svc_uri = handler, lastupdate = 0, allowcache = False, is_prefix = Some (isPrefix handler)\<rparr>"

definition reply_query :: "string \<Rightarrow> info_query" where
  "reply_query name = \<lparr>query_name = name, query_lastupdate = 0\<rparr>"

text \<open>The configured identity of a server, as its replies carry it.\<close>

record server_config =
  itsHostname :: string
  itsHttpAddress :: string
  itsHttpPort :: "32 word"
  itsComment :: string
  itsThrottleLimit :: "32 word"

definition discovery_reply :: "'g engine_env \<Rightarrow> server_config \<Rightarrow> int \<Rightarrow> exn + broadcast_message" where
  "discovery_reply E cfg theSequenceNumber =
     (case numeric_cast_int32 (itsHttpPort cfg) of
        Inl e \<Rightarrow> Inl e
      | Inr thePort \<Rightarrow>
          (case per_core_load (getloadavg E) (hardware_concurrency E) of
             Inl e \<Rightarrow> Inl e
           | Inr currentLoad \<Rightarrow>
               (case numeric_cast_int32 (itsThrottleLimit cfg) of
                  Inl e \<Rightarrow> Inl e
                | Inr theThrottle \<Rightarrow>
                    Inr \<lparr>msg_name = itsHostname cfg, messagetype = SERVICE_DISCOVERY_REPLY,
                         seqnum = theSequenceNumber,
                         host = Some \<lparr>host_ip = itsHttpAddress cfg, host_port = thePort,
                                      host_comment = itsComment cfg, host_load = currentLoad,
                                      host_throttle = Some theThrottle\<rparr>,
                         services_of = map (reply_service (isURIPrefix E)) (getURIMap E),
                         infoQuery = map reply_query (getAdminRequestNames E)\<rparr>)))"

text \<open>The buffer the reply is written to: empty if the server is shutting down.\<close>

definition sendDiscoveryReply ::
  "wire \<Rightarrow> 'g engine_env \<Rightarrow> server_config \<Rightarrow> int \<Rightarrow> exn + string" where
  "sendDiscoveryReply W E cfg theSequenceNumber =
     (if isShuttingDown E InReply then Inr []
      else (case discovery_reply E cfg theSequenceNumber of
              Inl e \<Rightarrow> Inl e
            | Inr message \<Rightarrow>
                if isShuttingDown E BeforeURIMap \<or> isShuttingDown E BeforeAdminRequests then Inr []
                else Inr (SerializeToString W message)))"

definition processRequest ::
  "wire \<Rightarrow> 'g engine_env \<Rightarrow> server_config \<Rightarrow> broadcast_message \<Rightarrow> exn + string" where
  "processRequest W E cfg theMessage =
     (if isShuttingDown E InProcessRequest then Inr []
      else (case messagetype theMessage of
              SERVICE_DISCOVERY_REQUEST \<Rightarrow> sendDiscoveryReply W E cfg (seqnum theMessage)
            | SERVICE_DISCOVERY_REPLY \<Rightarrow> Inr []
            | SERVICE_DISCOVERY_BEACON \<Rightarrow> Inr []))"

section \<open>The frontend\<close>

definition discovery_request :: "string \<Rightarrow> int \<Rightarrow> broadcast_message" where
  "discovery_request hostname theSequenceNumber =
     \<lparr>msg_name = hostname, messagetype = SERVICE_DISCOVERY_REQUEST, seqnum = theSequenceNumber,
      host = None, services_of = [], infoQuery = []\<rparr>"

definition sendDiscoveryRequest :: "wire \<Rightarrow> 'g engine_env \<Rightarrow> server_config \<Rightarrow> int \<Rightarrow> string" where
  "sendDiscoveryRequest W E cfg theSequenceNumber =
     (if isShuttingDown E InRequest then []
      else SerializeToString W (discovery_request (itsHostname cfg) theSequenceNumber))"

definition reply_server :: "broadcast_message \<Rightarrow> host_info \<Rightarrow> 32 word \<Rightarrow> backend_server" where
  "reply_server theMessage h theThrottle =
     \<lparr>Name = msg_name theMessage, IP = host_ip h, Port = host_port h, Comment = host_comment h,
      Load = host_load h, Throttle = theThrottle\<rparr>"

definition announced_service :: "broadcast_message \<Rightarrow> backend_server \<Rightarrow> service_msg \<Rightarrow> backend_service" where
  "announced_service theMessage theServer service =
     \<lparr>Backend = theServer, URI = svc_uri service, LastUpdate = lastupdate service,
      AllowCache = allowcache service, SequenceNumber = seqnum theMessage,
      DefinesPrefix = is_prefix_of service\<rparr>"

definition direct_uri :: "broadcast_message \<Rightarrow> service_msg \<Rightarrow> string" where
  "direct_uri theMessage service = ''/'' @ msg_name theMessage @ svc_uri service"

fun add_services ::
  "'g platform \<Rightarrow> 'g engine_env \<Rightarrow> broadcast_message \<Rightarrow> backend_server \<Rightarrow> nat \<Rightarrow> service_msg list \<Rightarrow>
     'g services \<Rightarrow> 'g services" where
  "add_services P E theMessage theServer n [] s = s"
| "add_services P E theMessage theServer n (service # rest) s =
     (let theService = announced_service theMessage theServer service;
          add = (\<lambda>i theURI s. snd (addService P (tableEnv E i) (Some theService) theURI
                                   (Load theServer) (Throttle theServer) s))
      in add_services P E theMessage theServer (n + 2) rest
           (add (n + 1) (direct_uri theMessage service) (add n (svc_uri service) s)))"

definition add_info_query :: "broadcast_message \<Rightarrow> backend_server \<Rightarrow> 'g services \<Rightarrow> info_query \<Rightarrow> 'g services" where
  "add_info_query theMessage theServer s q =
     snd (addBackendInfoRequest
            (Some \<lparr>reqBackend = theServer, reqName = query_name q, reqLastUpdate = query_lastupdate q,
                   reqSequenceNumber = seqnum theMessage\<rparr>) s)"

text \<open>
  What a reply does to the table; \<open>None\<close> if it is ignored. The counter
  \<open>itsReceivedResponses\<close> of the engine counts the others.
\<close>

definition processReply ::
  "'g platform \<Rightarrow> 'g engine_env \<Rightarrow> broadcast_message \<Rightarrow> 'g services \<Rightarrow> exn + 'g services option" where
  "processReply P E theMessage s =
     (if isShuttingDown E InProcessReply then Inr None
      else if messagetype theMessage \<noteq> SERVICE_DISCOVERY_REPLY then Inr None
      else (case host theMessage of
              None \<Rightarrow> Inr None
            | Some h \<Rightarrow>
                if services_of theMessage = [] then Inr None
                else (case numeric_cast_unsigned (throttle_of h) of
                        Inl e \<Rightarrow> Inl e
                      | Inr theThrottle \<Rightarrow>
                          (let theServer = reply_server theMessage h theThrottle
                           in Inr (Some (foldl (add_info_query theMessage theServer)
                                (add_services P E theMessage theServer 0 (services_of theMessage) s)
                                (infoQuery theMessage)))))))"

end
