(* ===== verification/Engine.thy ===== *)
theory Engine
  imports Messages
begin

text \<open>
  The class \<open>Engine\<close> (sputnik/Engine.h, .cpp): the service discovery of a frontend and of a
  backend. Its handlers run one at a time on the thread of \<open>itsIoService\<close>; each is one
  function of the engine state here, from the completion that runs it to its return. What
  the asynchronous calls leave behind is state: the receives posted on the socket, the
  completed ones whose handlers wait to be run, the receive buffer they share, whether the
  timer is armed, and what was sent.
\<close>

section \<open>State\<close>

datatype broadcast_mode = ModeBackend | ModeFrontend | ModeUnknown

type_synonym endpoint = "string \<times> 16 word"

text \<open>
  A completed receive whose handler has not run yet: what it is passed as error code and
  \<open>bytes_transferred\<close>. The bytes themselves are in the buffer of the engine.
\<close>

datatype completed = Cancelled | ReceiveError | Transferred nat

record 'g engine =
  itsMode :: broadcast_mode
  itsFrontendSequence :: "32 word"
  itsReceivedResponses :: "32 word"
  itsSkippedCycles :: "32 word"
  itsBackendUdpListeners :: "string list"
  itsFrontendUdpAddress :: string
  itsFrontendUdpPort :: "16 word"
  itsServer :: server_config
  itsUdpListenerAddress :: string
  itsUdpListenerPort :: "16 word"
  itsHeartBeatInterval :: "32 word"
  itsHeartBeatTimeout :: "32 word"
  itsMaxSkippedCycles :: "32 word"
  itsForwardingMode :: string
  itsBalanceFactor :: f32
  itsStickyCookie :: string
  itsReactor :: bool \<comment> \<open>the pointer is set\<close>
  servicesReactor :: bool \<comment> \<open>the pointer of \<open>itsServices\<close> is set\<close>
  itsServices :: "'g services"
  itsBackendSocket :: endpoint
  itsPaused :: bool
  itsPauseDeadLine :: "int option"
  itsReceiveBuffer :: string
  postedReceives :: nat
  completedReceives :: "completed list" \<comment> \<open>in the order their handlers will run\<close>
  timerArmed :: bool
  boundTo :: "endpoint option"
  ioThread :: bool
  sentDatagrams :: "(endpoint \<times> string) list"

text \<open>
  Boost.Asio and macgyver: \<open>make_address_v4\<close> throws a \<open>system_error\<close> and \<open>Fmi::stoi\<close> its own
  exception on a text that is not an address or a number (\<open>None\<close>); \<open>socketError\<close> is the
  failure of a send to an endpoint, \<open>bindError\<close> that of a bind.
\<close>

record net =
  make_address_v4 :: "string \<Rightarrow> string option"
  stoi :: "string \<Rightarrow> int option"
  sendError :: "endpoint \<Rightarrow> bool"
  bindError :: "endpoint \<Rightarrow> string option"
  broadcastError :: "string option"
  hookAdded :: bool

section \<open>Construction\<close>

text \<open>\<open>Spine::ConfigBase\<close>: the value of a setting, if the file has it.\<close>

record config =
  cfg_string :: "string \<Rightarrow> string option"
  cfg_int :: "string \<Rightarrow> int option"
  cfg_float :: "string \<Rightarrow> f32 option"
  cfg_bool :: "string \<Rightarrow> bool option"
  cfg_array :: "string \<Rightarrow> string list option"
  reactor_port :: "int option" \<comment> \<open>\<open>Reactor::instance->getOptions().port\<close>, if there is an instance\<close>

definition get_optional :: "(string \<Rightarrow> 'a option) \<Rightarrow> string \<Rightarrow> 'a \<Rightarrow> 'a" where
  "get_optional cfg name def = (case cfg name of None \<Rightarrow> def | Some v \<Rightarrow> v)"

text \<open>\<open>itsReceiveBuffer()\<close>: a \<open>std::array\<close> of 8192 zero bytes.\<close>

definition new_buffer :: string where
  "new_buffer = replicate 8192 (CHR 0x00)"

definition COMM_UDP_PORT :: int where
  "COMM_UDP_PORT = 31337"

definition engine_config :: "config \<Rightarrow> int \<Rightarrow> 'g engine" where
  "engine_config C httpPort =
     \<lparr>itsMode = ModeUnknown, itsFrontendSequence = 0, itsReceivedResponses = 0, itsSkippedCycles = 0,
      itsBackendUdpListeners = get_optional (cfg_array C) ''backendUdpListeners'' [],
      itsFrontendUdpAddress = get_optional (cfg_string C) ''frontendUdpAddress'' ''0.0.0.0'',
      itsFrontendUdpPort = of_int (get_optional (cfg_int C) ''frontendUdpPort'' 0),
      itsServer =
        \<lparr>itsHostname = get_optional (cfg_string C) ''hostname'' ''localhost'',
         itsHttpAddress = get_optional (cfg_string C) ''httpAddress'' ''127.0.0.1'',
         itsHttpPort = of_int httpPort,
         itsComment = get_optional (cfg_string C) ''comment'' ''No comments associated with this server'',
         itsThrottleLimit = of_int (get_optional (cfg_int C) ''throttle'' 0)\<rparr>,
      itsUdpListenerAddress = get_optional (cfg_string C) ''udpListenerAddress'' ''127.0.0.1'',
      itsUdpListenerPort = of_int (get_optional (cfg_int C) ''udpListenerPort'' COMM_UDP_PORT),
      itsHeartBeatInterval = of_int (get_optional (cfg_int C) ''heartbeat.interval'' 5),
      itsHeartBeatTimeout = of_int (get_optional (cfg_int C) ''heartbeat.timeout'' 2),
      itsMaxSkippedCycles = of_int (get_optional (cfg_int C) ''heartbeat.max_skipped_cycles'' 2),
      itsForwardingMode = get_optional (cfg_string C) ''forwarding'' ''random'',
      itsBalanceFactor = get_optional (cfg_float C) ''balance_factor'' (Fin 2),
      itsStickyCookie = get_optional (cfg_string C) ''sticky_cookie'' ''smartmet-session-id'',
      itsReactor = False, servicesReactor = False, itsServices = empty_services, itsBackendSocket = ([], 0),
      itsPaused = get_optional (cfg_bool C) ''pause'' False, itsPauseDeadLine = None,
      itsReceiveBuffer = new_buffer, postedReceives = 0, completedReceives = [], timerArmed = False, boundTo = None, ioThread = False,
      sentDatagrams = []\<rparr>"

definition new_engine :: "net \<Rightarrow> config \<Rightarrow> exn + 'g engine" where
  "new_engine N C =
     (case reactor_port C of
        None \<Rightarrow> Inl NoReactor
      | Some httpPort \<Rightarrow>
          (let e = engine_config C httpPort
           in case make_address_v4 N (itsUdpListenerAddress e) of
                None \<Rightarrow> Inl (SocketError (itsUdpListenerAddress e))
              | Some address \<Rightarrow> Inr (e\<lparr>itsBackendSocket := (address, itsUdpListenerPort e)\<rparr>)))"

section \<open>The frontend\<close>

definition post_receive :: "'g engine \<Rightarrow> 'g engine" where
  "post_receive e = e\<lparr>postedReceives := postedReceives e + 1\<rparr>"

text \<open>
  The loop over the listeners \<open>address:port\<close>: an entry without a colon is skipped, a
  \<open>system_error\<close> (of the address or of the send) ends the loop for all entries, a port that
  is not a number throws out of the function.
\<close>

fun send_requests :: "net \<Rightarrow> string \<Rightarrow> string list \<Rightarrow> exn + (endpoint \<times> string) list" where
  "send_requests N theRequestBuffer [] = Inr []"
| "send_requests N theRequestBuffer (st # rest) =
     (case find_char (CHR '':'') st of
        None \<Rightarrow> send_requests N theRequestBuffer rest
      | Some idx \<Rightarrow>
          (case make_address_v4 N (take idx st) of
             None \<Rightarrow> Inr []
           | Some address \<Rightarrow>
               (case stoi N (drop (idx + 1) st) of
                  None \<Rightarrow> Inl (StoiError (drop (idx + 1) st))
                | Some thePort \<Rightarrow>
                    if sendError N (address, of_int thePort) then Inr []
                    else map_sum id ((#) ((address, of_int thePort), theRequestBuffer))
                           (send_requests N theRequestBuffer rest))))"

definition startServiceDiscovery ::
  "net \<Rightarrow> wire \<Rightarrow> 'g engine_env \<Rightarrow> 'g engine \<Rightarrow> exn + 'g engine" where
  "startServiceDiscovery N W E e =
     (let seq = (itsFrontendSequence e + 1) mod 65535;
          theRequestBuffer = sendDiscoveryRequest W E (itsServer e) (uint seq)
      in case send_requests N theRequestBuffer (itsBackendUdpListeners e) of
           Inl x \<Rightarrow> Inl x
         | Inr sent \<Rightarrow>
             Inr (post_receive
                    (e\<lparr>itsFrontendSequence := seq, sentDatagrams := sentDatagrams e @ sent,
                       timerArmed := True\<rparr>)))"

definition prune_services :: "'g platform \<Rightarrow> 'g engine_env \<Rightarrow> 'g engine \<Rightarrow> 'g services" where
  "prune_services P E e =
     snd (latestSequence P (tableEnv E 0) (uint (itsFrontendSequence e)) (itsServices e))"

text \<open>
  The deadline: \<open>itsSocket.cancel()\<close> ends the posted receives, whose handlers run later with
  \<open>operation_aborted\<close>; a receive that has already completed is not cancelled any more.
\<close>

definition handleDeadlineTimer ::
  "'g platform \<Rightarrow> net \<Rightarrow> wire \<Rightarrow> 'g engine_env \<Rightarrow> bool \<Rightarrow> 'g engine \<Rightarrow> exn + 'g engine" where
  "handleDeadlineTimer P N W E operation_aborted e0 =
     (let e = e0\<lparr>timerArmed := False\<rparr>
      in if operation_aborted then Inr e
         else
           (let e1 = e\<lparr>postedReceives := 0,
                       completedReceives :=
                         completedReceives e @ replicate (postedReceives e) Cancelled\<rparr>;
                e2 = (if itsReceivedResponses e1 > 0
                      then e1\<lparr>itsServices := prune_services P E e1, itsSkippedCycles := 0\<rparr>
                      else if itsSkippedCycles e1 + 1 > itsMaxSkippedCycles e1
                      then e1\<lparr>itsServices := prune_services P E e1, itsSkippedCycles := 0\<rparr>
                      else e1\<lparr>itsSkippedCycles := itsSkippedCycles e1 + 1\<rparr>);
                e3 = e2\<lparr>itsReceivedResponses := 0\<rparr>
            in if isShuttingDown E AtDeadline then Inr e3 else startServiceDiscovery N W E e3))"

text \<open>
  A receive completes: with an error, or with a datagram, of which the buffer takes the
  first 8192 bytes; what stood behind them stays.
\<close>

definition received :: "string \<Rightarrow> string" where
  "received datagram = take 8192 datagram"

definition receive_datagram :: "string \<Rightarrow> 'g engine \<Rightarrow> 'g engine" where
  "receive_datagram datagram e =
     e\<lparr>itsReceiveBuffer := received datagram @ drop (length (received datagram)) (itsReceiveBuffer e),
       postedReceives := postedReceives e - 1,
       completedReceives := completedReceives e @ [Transferred (length (received datagram))]\<rparr>"

definition receive_fails :: "'g engine \<Rightarrow> 'g engine" where
  "receive_fails e =
     e\<lparr>postedReceives := postedReceives e - 1, completedReceives := completedReceives e @ [ReceiveError]\<rparr>"

text \<open>
  What the handler of a receive finds: the error, or as many bytes of the buffer as were
  transferred (\<open>std::string receiveBuffer(itsReceiveBuffer.begin(), bytes_transferred)\<close>).
\<close>

datatype completion = Aborted | Failed | Received string

fun completion_of :: "completed \<Rightarrow> string \<Rightarrow> completion" where
  "completion_of Cancelled buffer = Aborted"
| "completion_of ReceiveError buffer = Failed"
| "completion_of (Transferred bytes_transferred) buffer = Received (take bytes_transferred buffer)"

definition processReply_engine ::
  "'g platform \<Rightarrow> 'g engine_env \<Rightarrow> broadcast_message \<Rightarrow> 'g engine \<Rightarrow> exn + 'g engine" where
  "processReply_engine P E theMessage e =
     (case processReply P E theMessage (itsServices e) of
        Inl x \<Rightarrow> Inl x
      | Inr None \<Rightarrow> Inr e
      | Inr (Some services) \<Rightarrow>
          Inr (e\<lparr>itsServices := services, itsReceivedResponses := itsReceivedResponses e + 1\<rparr>))"

definition handleFrontendRead ::
  "'g platform \<Rightarrow> wire \<Rightarrow> 'g engine_env \<Rightarrow> completion \<Rightarrow> 'g engine \<Rightarrow> exn + 'g engine" where
  "handleFrontendRead P W E c e =
     (case c of
        Aborted \<Rightarrow> Inr e
      | Failed \<Rightarrow> Inr (post_receive e)
      | Received receiveBuffer \<Rightarrow>
          map_sum id post_receive (processReply_engine P E (snd (ParseFromString W receiveBuffer)) e))"

definition frontendMode :: "net \<Rightarrow> wire \<Rightarrow> 'g engine_env \<Rightarrow> 'g engine \<Rightarrow> exn + 'g engine" where
  "frontendMode N W E e =
     (case setForwarding (itsForwardingMode e) (itsBalanceFactor e) (itsStickyCookie e) (itsServices e) of
        Inl x \<Rightarrow> Inl x
      | Inr services \<Rightarrow>
          (case broadcastError N of
             Some msg \<Rightarrow> Inl (SocketError msg)
           | None \<Rightarrow>
               (case make_address_v4 N (itsFrontendUdpAddress e) of
                  None \<Rightarrow> Inl (SocketError (itsFrontendUdpAddress e))
                | Some address \<Rightarrow>
                    (case bindError N (address, itsFrontendUdpPort e) of
                       Some msg \<Rightarrow> Inl (SocketError msg)
                     | None \<Rightarrow>
                         startServiceDiscovery N W E
                           (e\<lparr>itsServices := services,
                              boundTo := Some (address, itsFrontendUdpPort e)\<rparr>)))))"

section \<open>The backend\<close>

definition startListening :: "'g engine \<Rightarrow> 'g engine" where
  "startListening e = post_receive e"

definition backendMode :: "net \<Rightarrow> 'g engine \<Rightarrow> exn + 'g engine" where
  "backendMode N e =
     (case bindError N (itsBackendSocket e) of
        Some msg \<Rightarrow> Inl (SocketError msg)
      | None \<Rightarrow> Inr (startListening (e\<lparr>boundTo := Some (itsBackendSocket e)\<rparr>)))"

definition isPaused :: "int \<Rightarrow> 'g engine \<Rightarrow> bool \<times> 'g engine" where
  "isPaused now e =
     (if \<not> itsPaused e then (False, e)
      else (case itsPauseDeadLine e of
              None \<Rightarrow> (True, e)
            | Some deadline \<Rightarrow>
                if now < deadline then (True, e)
                else (False, e\<lparr>itsPaused := False, itsPauseDeadLine := None\<rparr>)))"

definition setPause :: "'g engine \<Rightarrow> 'g engine" where
  "setPause e = e\<lparr>itsPaused := True, itsPauseDeadLine := None\<rparr>"

definition setPauseUntil :: "int \<Rightarrow> 'g engine \<Rightarrow> 'g engine" where
  "setPauseUntil theDeadLine e = e\<lparr>itsPaused := True, itsPauseDeadLine := Some theDeadLine\<rparr>"

definition setContinue :: "'g engine \<Rightarrow> 'g engine" where
  "setContinue e = e\<lparr>itsPaused := False, itsPauseDeadLine := None\<rparr>"

text \<open>The reply to one datagram; a failing send is logged only.\<close>

definition handleBackendRead ::
  "net \<Rightarrow> wire \<Rightarrow> 'g engine_env \<Rightarrow> endpoint \<Rightarrow> completion \<Rightarrow> 'g engine \<Rightarrow> exn + 'g engine" where
  "handleBackendRead N W E itsRemoteEnd c e =
     (if isShuttingDown E AtBackendRead then Inr e
      else (case c of
              Aborted \<Rightarrow> Inr (startListening e)
            | Failed \<Rightarrow> Inr (startListening e)
            | Received receiveBuffer \<Rightarrow>
                (case isPaused (universal_time E) e of (paused, e1) \<Rightarrow>
                   if paused then Inr (startListening e1)
                   else if isLoadHigh E then Inr (startListening e1)
                   else if isShuttingDown E AfterParse then Inr e1
                   else (case processRequest W E (itsServer e1) (snd (ParseFromString W receiveBuffer)) of
                           Inl x \<Rightarrow> Inl x
                         | Inr responseBuffer \<Rightarrow>
                             Inr (startListening
                               (if responseBuffer \<noteq> [] \<and> \<not> sendError N itsRemoteEnd
                                then e1\<lparr>sentDatagrams := sentDatagrams e1 @ [(itsRemoteEnd, responseBuffer)]\<rparr>
                                else e1))))))"

section \<open>Common operations\<close>

text \<open>\<open>Services::setReactor\<close>: what the table reads from the reactor is a parameter of its operations.\<close>

definition setReactor :: "'g engine \<Rightarrow> 'g engine" where
  "setReactor e = e\<lparr>servicesReactor := True\<rparr>"

definition launch ::
  "net \<Rightarrow> wire \<Rightarrow> 'g engine_env \<Rightarrow> broadcast_mode \<Rightarrow> 'g engine \<Rightarrow> exn + 'g engine" where
  "launch N W E theMode e0 =
     (let e = (setReactor (e0\<lparr>itsReactor := True\<rparr>))\<lparr>itsMode := theMode\<rparr>
      in case (case theMode of
                 ModeBackend \<Rightarrow> backendMode N e
               | ModeFrontend \<Rightarrow>
                   (case frontendMode N W E e of
                      Inl x \<Rightarrow> Inl x
                    | Inr e' \<Rightarrow> if hookAdded N then Inr e' else Inl HookRefused)
               | ModeUnknown \<Rightarrow> Inr e) of
           Inl x \<Rightarrow> Inl x
         | Inr e' \<Rightarrow> Inr (e'\<lparr>ioThread := True\<rparr>))"

text \<open>\<open>itsIoService.stop()\<close>: the thread returns from \<open>run()\<close>, no handler runs any more.\<close>

definition shutdown :: "'g engine \<Rightarrow> 'g engine" where
  "shutdown e = e\<lparr>ioThread := False\<rparr>"

text \<open>
  The hook on a finished backend connection, with \<open>exitOk\<close> for \<open>theStatus == EXIT_OK\<close>; the
  query before it only decides a log line.
\<close>

definition engine_setBackendAlive :: "string \<Rightarrow> int \<Rightarrow> bool \<Rightarrow> 'g engine \<Rightarrow> 'g engine" where
  "engine_setBackendAlive theHostName thePort exitOk e =
     (if exitOk
      then e\<lparr>itsServices := Services.setBackendAlive theHostName thePort (itsServices e)\<rparr>
      else e)"

definition engine_URI :: "'g engine \<Rightarrow> string" where
  "engine_URI e =
     ''http://'' @ itsHttpAddress (itsServer e) @ '':'' @ to_string (uint (itsHttpPort (itsServer e)))"

end
