(* ===== verification/Services_Report.thy ===== *)
theory Services_Report
  imports Engine
begin

text \<open>
  What the engine reports: the backends of a service (for the admin plugin and for the
  broadcast of a request to all backends), the info requests and the status pages
  (\<open>Services::backends\<close>, \<open>getBackendList\<close>, \<open>getInfoRequestBackendList\<close>,
  \<open>getInfoRequestNames\<close>, \<open>status\<close> and their counterparts in \<open>Engine\<close>, which forward).
\<close>

section \<open>Backends of a service\<close>

text \<open>\<open>Spine::Table\<close>, filled row by row.\<close>

record table =
  tableTitle :: string
  tableNames :: "string list"
  tableRows :: "string list list"

definition service_uri :: "'g platform \<Rightarrow> string \<Rightarrow> 'g services \<Rightarrow> string" where
  "service_uri P service s = ''/'' @ translate P (itsPrefixMap s) service"

definition listed_id :: "backend_service \<Rightarrow> string" where
  "listed_id backend =
     Name (Backend backend) @ ''|'' @ IP (Backend backend) @ ''|'' @ to_string (Port (Backend backend))"

definition backend_row :: "bool \<Rightarrow> backend_service \<Rightarrow> string list" where
  "backend_row full backend =
     (if full then [Name (Backend backend), IP (Backend backend), to_string (Port (Backend backend))]
      else [Name (Backend backend)])"

fun backend_rows :: "bool \<Rightarrow> string set \<Rightarrow> backend_service list \<Rightarrow> string list list \<times> string set" where
  "backend_rows full listedIds [] = ([], listedIds)"
| "backend_rows full listedIds (backend # rest) =
     (if listed_id backend \<in> listedIds then backend_rows full listedIds rest
      else (case backend_rows full (insert (listed_id backend) listedIds) rest of
              (rows, ids) \<Rightarrow> (backend_row full backend # rows, ids)))"

fun table_rows ::
  "bool \<Rightarrow> string \<Rightarrow> string set \<Rightarrow> (string, backend_service list \<times> 'g forwarder) omap \<Rightarrow> string list list" where
  "table_rows full serviceuri ids [] = []"
| "table_rows full serviceuri ids ((uri, theList, f) # rest) =
     (if uri = serviceuri
      then (case backend_rows full ids theList of
              (rows, ids') \<Rightarrow> rows @ table_rows full serviceuri ids' rest)
      else table_rows full serviceuri ids rest)"

definition report_backends :: "string \<Rightarrow> bool \<Rightarrow> string \<Rightarrow> 'g services \<Rightarrow> table" where
  "report_backends service full serviceuri s =
     \<lparr>tableTitle = ''Backends'' @ (if service = [] then [] else '' for service '' @ service),
      tableNames = (if full then [''Backend'', ''IP'', ''Port''] else [''Backend'']),
      tableRows = table_rows full serviceuri {} (itsServicesByURI s)\<rparr>"

definition backends :: "'g platform \<Rightarrow> string \<Rightarrow> bool \<Rightarrow> 'g services \<Rightarrow> table" where
  "backends P service full s = report_backends service full (service_uri P service s) s"

definition backend_tuple :: "backend_server \<Rightarrow> string \<times> string \<times> int" where
  "backend_tuple b = (Name b, IP b, Port b)"

definition list_backends :: "string \<Rightarrow> 'g services \<Rightarrow> (string \<times> string \<times> int) list" where
  "list_backends serviceuri s =
     concat (map (\<lambda>(uri, theList, f). if uri = serviceuri then map (backend_tuple \<circ> Backend) theList else [])
               (itsServicesByURI s))"

definition getBackendList :: "'g platform \<Rightarrow> string \<Rightarrow> 'g services \<Rightarrow> (string \<times> string \<times> int) list" where
  "getBackendList P service s = list_backends (service_uri P service s) s"

section \<open>Info requests\<close>

definition getInfoRequestBackendList :: "string \<Rightarrow> 'g services \<Rightarrow> (string \<times> string \<times> int) list" where
  "getInfoRequestBackendList infoRequestName s =
     (case omap_find (itsBackendInfoRequests s) infoRequestName of
        None \<Rightarrow> []
      | Some requestList \<Rightarrow> map (backend_tuple \<circ> reqBackend) requestList)"

text \<open>A \<open>std::set\<close> in its order.\<close>

definition getInfoRequestNames :: "'g services \<Rightarrow> string list" where
  "getInfoRequestNames s =
     map fst (filter (\<lambda>item. snd item \<noteq> []) (itsBackendInfoRequests s))"

section \<open>Status\<close>

definition newline :: string where
  "newline = [char_of (10 :: nat)]"

definition service_item :: "bool \<Rightarrow> backend_service \<Rightarrow> string" where
  "service_item full backend =
     ''<li>'' @ Name (Backend backend) @ URI backend @
     (if full
      then '' ['' @ IP (Backend backend) @ '':'' @ to_string (Port (Backend backend)) @ '']'' @
           '' [Sequence '' @ to_string (SequenceNumber backend) @ '']''
      else []) @ ''</li>'' @ newline"

definition services_status :: "bool \<Rightarrow> 'g services \<Rightarrow> string" where
  "services_status full s =
     ''<ul>'' @ newline @
     concat (map (\<lambda>(uri, theList, f).
        ''<li>URI '' @ uri @ ''</li>'' @ newline @ ''<ol>'' @ newline @
        concat (map (service_item full) theList) @ ''</ol>'' @ newline) (itsServicesByURI s))"

definition li :: "string \<Rightarrow> string" where
  "li x = ''<li>'' @ x @ ''</li>'' @ newline"

definition server_lines :: "bool \<Rightarrow> 'g engine \<Rightarrow> string" where
  "server_lines full e =
     ''<ul>'' @ newline @
     li (''Host: '' @ itsHostname (itsServer e)) @ li (''Comment: '' @ itsComment (itsServer e)) @
     (if full
      then li (''HTTP Interface: '' @ itsHttpAddress (itsServer e) @ '':'' @
               to_string (uint (itsHttpPort (itsServer e)))) @
           li (''Throttle Limit: '' @ to_string (uint (itsThrottleLimit (itsServer e)))) @
           ''<li>Broadcast Interface: '' @ itsUdpListenerAddress e @ '':'' @
           to_string (uint (itsUdpListenerPort e)) @ newline
      else []) @
     ''</li>'' @ newline @ ''</ul>'' @ newline"

definition engine_status :: "'g engine_env \<Rightarrow> bool \<Rightarrow> 'g engine \<Rightarrow> string" where
  "engine_status E full e =
     ''<h2>Broadcast Cluster Information</h2>'' @ newline @ newline @ ''<div>This server is '' @
     (case itsMode e of
        ModeBackend \<Rightarrow> ''a BACKEND''
      | ModeFrontend \<Rightarrow> ''a FRONTEND''
      | ModeUnknown \<Rightarrow> '' in a UNINITIALIZED STATE'') @ ''</div>'' @
     server_lines full e @
     (if itsMode e = ModeBackend
      then ''<h3>Services currently provided by this backend server</h3>'' @ newline @
           (if \<not> itsReactor e
            then ''<div>List not available, Reactor not initialized</div>'' @ newline
            else ''<ol>'' @ newline @ concat (map li (getURIMap E)) @ ''</ol>'' @ newline)
      else ''<h3>Services known by the frontend server</h3>'' @ newline @
           services_status full (itsServices e))"

section \<open>The engine's interface\<close>

text \<open>The queries of \<open>Engine\<close> forward to its table.\<close>

definition engine_backends :: "'g platform \<Rightarrow> string \<Rightarrow> bool \<Rightarrow> 'g engine \<Rightarrow> table" where
  "engine_backends P service full e = backends P service full (itsServices e)"

definition engine_getBackendList :: "'g platform \<Rightarrow> string \<Rightarrow> 'g engine \<Rightarrow> (string \<times> string \<times> int) list" where
  "engine_getBackendList P service e = getBackendList P service (itsServices e)"

definition engine_getInfoRequestBackendList :: "string \<Rightarrow> 'g engine \<Rightarrow> (string \<times> string \<times> int) list" where
  "engine_getInfoRequestBackendList infoRequestName e = getInfoRequestBackendList infoRequestName (itsServices e)"

definition engine_getInfoRequestNames :: "'g engine \<Rightarrow> string list" where
  "engine_getInfoRequestNames e = getInfoRequestNames (itsServices e)"

text \<open>The entry points of the module.\<close>

definition engine_class_creator :: "net \<Rightarrow> config \<Rightarrow> exn + 'g engine" where
  "engine_class_creator N C = new_engine N C"

definition engine_name :: string where
  "engine_name = ''Sputnik''"

section \<open>Properties\<close>

lemma table_rows_other:
  "serviceuri \<notin> fst ` set m \<Longrightarrow> table_rows full serviceuri ids m = []"
  by (induction full serviceuri ids m rule: table_rows.induct) auto

text \<open>Every URI occurs once in the map, so the loops over the map are one look-up.\<close>

lemma table_rows_find:
  "omap_ok m \<Longrightarrow> table_rows full serviceuri ids m =
     (case omap_find m serviceuri of None \<Rightarrow> [] | Some (l, f) \<Rightarrow> fst (backend_rows full ids l))"
proof (induction full serviceuri ids m rule: table_rows.induct)
  case (2 full serviceuri ids u l f rest)
  have ok: "omap_ok rest" and new: "u \<notin> fst ` set rest"
    using "2.prems" by (auto simp: omap_ok_def)
  show ?case
  proof (cases "u = serviceuri")
    case True
    with new table_rows_other [of serviceuri rest] show ?thesis by (simp split: prod.split)
  qed (use "2.IH"(2) ok in simp)
qed simp

lemma concat_if_key:
  "omap_ok m \<Longrightarrow> concat (map (\<lambda>(k, v). if k = key then g v else []) m) =
     (case omap_find m key of None \<Rightarrow> [] | Some v \<Rightarrow> g v)"
proof (induction m)
  case (Cons kv m)
  have new: "fst kv \<notin> fst ` set m" and ok: "omap_ok m" using Cons.prems by (auto simp: omap_ok_def)
  have "concat (map (\<lambda>(k, v). if k = key then g v else []) m) = []" if "key \<notin> fst ` set m"
    using that by (induction m) auto
  with new Cons.IH [OF ok] show ?case by (cases kv) auto
qed simp

lemma getBackendList_find:
  assumes "omap_ok (itsServicesByURI s)"
  shows "getBackendList P service s =
     (case uri_list s (service_uri P service s) of
        None \<Rightarrow> [] | Some l \<Rightarrow> map (backend_tuple \<circ> Backend) l)"
proof -
  let ?u = "service_uri P service s"
  have eq: "(\<lambda>(uri, theList, f). if uri = ?u then map (backend_tuple \<circ> Backend) theList else []) =
      (\<lambda>(k, v). if k = ?u then map (backend_tuple \<circ> Backend) (fst (v :: backend_service list \<times> 'a forwarder)) else [])"
    by (simp add: fun_eq_iff)
  show ?thesis
    unfolding getBackendList_def list_backends_def eq concat_if_key [OF assms] uri_list_def
    by (simp split: option.split)
qed

lemma backend_rows_spec:
  "\<exists>shown. fst (backend_rows full ids l) = map (backend_row full) shown \<and>
     distinct (map listed_id shown) \<and> set shown \<subseteq> set l \<and>
     listed_id ` set shown = listed_id ` set l - ids"
proof (induction full ids l rule: backend_rows.induct)
  case (2 full ids b rest)
  show ?case
  proof (cases "listed_id b \<in> ids")
    case True
    with "2.IH"(1) obtain shown where "fst (backend_rows full ids rest) = map (backend_row full) shown"
      "distinct (map listed_id shown)" "set shown \<subseteq> set rest"
      "listed_id ` set shown = listed_id ` set rest - ids" by blast
    with True show ?thesis by (intro exI [of _ shown]) auto
  next
    case False
    with "2.IH"(2) obtain shown
      where "fst (backend_rows full (insert (listed_id b) ids) rest) = map (backend_row full) shown"
        "distinct (map listed_id shown)" "set shown \<subseteq> set rest"
        "listed_id ` set shown = listed_id ` set rest - insert (listed_id b) ids" by blast
    with False show ?thesis by (intro exI [of _ "b # shown"]) (auto simp: case_prod_beta)
  qed
qed simp

text \<open>
  The table of a service shows each of its backends (name, IP and port) once, however
  often the URI lists it, and no backend of another URI.
\<close>

lemma backends_once:
  assumes "services_wf s" and "uri_list s (service_uri P service s) = Some l"
  shows "\<exists>shown. tableRows (backends P service full s) = map (backend_row full) shown \<and>
     distinct (map listed_id shown) \<and> set shown \<subseteq> set l \<and>
     listed_id ` set shown = listed_id ` set l"
proof -
  obtain f where "omap_find (itsServicesByURI s) (service_uri P service s) = Some (l, f)"
    using assms(2) by (auto simp: uri_list_def)
  then have "tableRows (backends P service full s) = fst (backend_rows full {} l)"
    using table_rows_find [of "itsServicesByURI s"] assms(1) by (simp add: backends_def report_backends_def services_wf_def)
  with backend_rows_spec [of full "{}" l] show ?thesis by simp
qed

text \<open>
  Asked for no service, the list of backends is that of the URI \<open>/\<close> and not that of all
  services.
\<close>

lemma empty_service_is_root:
  assumes "starts_with_law P" and "services_wf s"
  shows "getBackendList P [] s =
     (case uri_list s ''/'' of None \<Rightarrow> [] | Some l \<Rightarrow> map (backend_tuple \<circ> Backend) l)"
proof -
  have "translate P (itsPrefixMap s) [] = []"
    using translate_cases [OF assms(1), of "itsPrefixMap s" "[]"] assms(2) by (auto simp: services_wf_def)
  with getBackendList_find [of s P "[]"] assms(2) show ?thesis by (simp add: service_uri_def services_wf_def)
qed

text \<open>
  After \<open>latestSequence\<close> the info requests on offer are exactly those that some backend
  confirmed in that round, each name once and in order.
\<close>

lemma info_request_names_after_round:
  assumes "services_wf s"
  shows "sorted_wrt (<) (getInfoRequestNames (snd (latestSequence P E n s))) \<and>
     set (getInfoRequestNames (snd (latestSequence P E n s))) =
       {name. \<exists>l req. omap_find (itsBackendInfoRequests s) name = Some l \<and> req \<in> set l \<and>
          reqSequenceNumber req = n}"
proof -
  let ?m = "itsBackendInfoRequests s" and ?s = "snd (latestSequence P E n s)"
  have ok: "omap_ok ?m" using assms by (simp add: services_wf_def)
  have ok': "omap_ok (itsBackendInfoRequests ?s)"
    using services_wf_latestSequence [OF assms] by (simp add: services_wf_def)
  have mem: "name \<in> set (getInfoRequestNames ?s) \<longleftrightarrow>
      (\<exists>l. omap_find (itsBackendInfoRequests ?s) name = Some l \<and> l \<noteq> [])" for name
    using ok' by (force simp: getInfoRequestNames_def omap_ok_def strict_sorted_iff
        intro: map_of_is_SomeI dest: map_of_SomeD)
  have find: "omap_find (itsBackendInfoRequests ?s) name =
      map_option (filter (\<lambda>req. reqSequenceNumber req = n)) (omap_find ?m name)" for name
    by (simp add: latestSequence_def map_of_omap_update)
  have "sorted_wrt (<) (map fst (filter (\<lambda>item. snd item \<noteq> []) (itsBackendInfoRequests ?s)))"
    using ok' by (simp add: omap_ok_def sorted_wrt_map sorted_wrt_filter)
  with mem find show ?thesis
    by (auto simp: getInfoRequestNames_def [symmetric] filter_empty_conv set_eq_iff) 
qed

end
