(* ===== verification/Discovery.thy ===== *)
theory Discovery
  imports Services_Report
begin

text \<open>
  The service discovery loop, handler by handler: the calls a reply makes on the table and
  what they add to it, what the deadline takes away, how the requests go out.
\<close>

section \<open>Samples\<close>

definition sample_engine_env :: "nat engine_env" where
  "sample_engine_env =
     \<lparr>tableEnv = (\<lambda>n. sample_env), isShuttingDown = (\<lambda>site. False), getURIMap = [''/wms''],
      isURIPrefix = (\<lambda>u. False), getAdminRequestNames = [], isLoadHigh = False, getloadavg = 0,
      hardware_concurrency = 4, universal_time = 0\<rparr>"

definition sample_reply :: "string \<Rightarrow> int \<Rightarrow> broadcast_message" where
  "sample_reply h n =
     \<lparr>msg_name = h, messagetype = SERVICE_DISCOVERY_REPLY, seqnum = n,
      host = Some \<lparr>host_ip = ''10.0.0.2'', host_port = 80, host_comment = [], host_load = Fin 0,
                   host_throttle = Some 5\<rparr>,
      services_of = [\<lparr>svc_uri = ''/wms'', lastupdate = 0, allowcache = False, is_prefix = Some False\<rparr>],
      infoQuery = []\<rparr>"

definition sample_wire :: wire where
  "sample_wire =
     \<lparr>ParseFromString = (\<lambda>d. if d = ''request'' then (True, discovery_request ''localhost'' 1)
                              else if d = ''reply'' then (True, sample_reply ''a'' 1)
                              else (False, default_message)),
      SerializeToString = (\<lambda>m. if messagetype m = SERVICE_DISCOVERY_REQUEST then ''request'' else ''reply'')\<rparr>"

definition sample_net :: net where
  "sample_net =
     \<lparr>make_address_v4 = (\<lambda>a. if a = ''nowhere'' then None else Some a), stoi = (\<lambda>p. Some 31337),
      sendError = (\<lambda>e. False), bindError = (\<lambda>e. None), broadcastError = None, hookAdded = True\<rparr>"

definition sample_config :: config where
  "sample_config =
     \<lparr>cfg_string = (\<lambda>n. None), cfg_int = (\<lambda>n. None), cfg_float = (\<lambda>n. None), cfg_bool = (\<lambda>n. None),
      cfg_array = (\<lambda>n. Some [''10.0.0.2:31337'']), reactor_port = Some 80\<rparr>"

definition sample_engine :: "nat engine" where
  "sample_engine = engine_config sample_config 80"

lemma sample_engine_env_fields [simp]:
  "tableEnv sample_engine_env n = sample_env" "isShuttingDown sample_engine_env site = False"
  "getURIMap sample_engine_env = [''/wms'']" "isURIPrefix sample_engine_env u = False"
  "getAdminRequestNames sample_engine_env = []" "isLoadHigh sample_engine_env = False"
  "getloadavg sample_engine_env = 0" "hardware_concurrency sample_engine_env = 4"
  "universal_time sample_engine_env = 0"
  by (simp_all add: sample_engine_env_def)

lemma sample_reply_fields [simp]:
  "msg_name (sample_reply h n) = h" "messagetype (sample_reply h n) = SERVICE_DISCOVERY_REPLY"
  "seqnum (sample_reply h n) = n"
  "host (sample_reply h n) = Some \<lparr>host_ip = ''10.0.0.2'', host_port = 80, host_comment = [],
     host_load = Fin 0, host_throttle = Some 5\<rparr>"
  "services_of (sample_reply h n) =
     [\<lparr>svc_uri = ''/wms'', lastupdate = 0, allowcache = False, is_prefix = Some False\<rparr>]"
  "infoQuery (sample_reply h n) = []"
  by (simp_all add: sample_reply_def)

lemma sample_net_fields [simp]:
  "make_address_v4 sample_net a = (if a = ''nowhere'' then None else Some a)"
  "stoi sample_net p = Some 31337" "sendError sample_net e = False" "bindError sample_net e = None"
  "broadcastError sample_net = None" "hookAdded sample_net = True"
  by (simp_all add: sample_net_def)

lemma sample_engine_fields [simp]:
  "itsFrontendSequence sample_engine = 0" "itsReceivedResponses sample_engine = 0"
  "itsSkippedCycles sample_engine = 0" "itsMaxSkippedCycles sample_engine = 2"
  "itsBackendUdpListeners sample_engine = [''10.0.0.2:31337'']"
  "itsServices sample_engine = empty_services" "itsPaused sample_engine = False"
  "itsForwardingMode sample_engine = ''random''" "itsStickyCookie sample_engine = ''smartmet-session-id''"
  "itsBalanceFactor sample_engine = Fin 2" "postedReceives sample_engine = 0" "completedReceives sample_engine = []"
  "itsFrontendUdpAddress sample_engine = ''0.0.0.0''" "sentDatagrams sample_engine = []"
  by (simp_all add: sample_engine_def engine_config_def sample_config_def get_optional_def empty_services_def)

section \<open>The handlers\<close>

lemma map_sum_Inr [simp]: "map_sum id f r = Inr y \<longleftrightarrow> (\<exists>x. r = Inr x \<and> y = f x)"
  by (cases r) auto

lemma startServiceDiscovery_cases:
  assumes "startServiceDiscovery N W E e = Inr e'"
  obtains sent where
    "send_requests N (sendDiscoveryRequest W E (itsServer e)
        (uint ((itsFrontendSequence e + 1) mod 65535))) (itsBackendUdpListeners e) = Inr sent"
    "e' = post_receive (e\<lparr>itsFrontendSequence := (itsFrontendSequence e + 1) mod 65535,
            sentDatagrams := sentDatagrams e @ sent, timerArmed := True\<rparr>)"
  using assms by (auto simp: startServiceDiscovery_def Let_def split: sum.splits)

text \<open>The sequence number as an integer: it counts modulo 65535.\<close>

lemma uint_next_sequence:
  assumes "uint n < 65535"
  shows "uint ((n + 1 :: 32 word) mod 65535) = (uint n + 1) mod 65535"
proof -
  have "uint (n + 1) = uint n + 1" using assms by (simp add: uint_word_ariths)
  then show ?thesis by (simp add: uint_mod)
qed

definition pruning_due :: "'g engine \<Rightarrow> bool" where
  "pruning_due e \<longleftrightarrow>
     itsReceivedResponses e > 0 \<or> itsSkippedCycles e + 1 > itsMaxSkippedCycles e"

definition close_round :: "'g platform \<Rightarrow> 'g engine_env \<Rightarrow> 'g engine \<Rightarrow> 'g engine" where
  "close_round P E e =
     e\<lparr>timerArmed := False, postedReceives := 0,
       completedReceives := completedReceives e @ replicate (postedReceives e) Cancelled,
       itsServices := (if pruning_due e then prune_services P E e else itsServices e),
       itsSkippedCycles := (if pruning_due e then 0 else itsSkippedCycles e + 1),
       itsReceivedResponses := 0\<rparr>"

lemma prune_services_cong:
  "itsFrontendSequence e' = itsFrontendSequence e \<Longrightarrow> itsServices e' = itsServices e \<Longrightarrow>
     prune_services P E e' = prune_services P E e"
  by (simp add: prune_services_def)

lemma deadline_closes_round:
  "handleDeadlineTimer P N W E False e =
     (if isShuttingDown E AtDeadline then Inr (close_round P E e)
      else startServiceDiscovery N W E (close_round P E e))"
  by (simp add: handleDeadlineTimer_def close_round_def pruning_due_def prune_services_def Let_def)

lemma close_round_fields [simp]:
  "itsServer (close_round P E e) = itsServer e"
  "itsFrontendSequence (close_round P E e) = itsFrontendSequence e"
  "itsMaxSkippedCycles (close_round P E e) = itsMaxSkippedCycles e"
  "itsReceivedResponses (close_round P E e) = 0"
  "postedReceives (close_round P E e) = 0"
  "timerArmed (close_round P E e) = False"
  "completedReceives (close_round P E e) = completedReceives e @ replicate (postedReceives e) Cancelled"
  "sentDatagrams (close_round P E e) = sentDatagrams e"
  "itsBackendUdpListeners (close_round P E e) = itsBackendUdpListeners e"
  "itsServices (close_round P E e) =
     (if pruning_due e then prune_services P E e else itsServices e)"
  "itsSkippedCycles (close_round P E e) = (if pruning_due e then 0 else itsSkippedCycles e + 1)"
  by (simp_all add: close_round_def)

lemma uri_list_prune:
  "uri_list (prune_services P E e) =
     map_option (filter (\<lambda>it. SequenceNumber it = uint (itsFrontendSequence e))) \<circ> uri_list (itsServices e)"
  by (simp add: prune_services_def uri_list_latestSequence)

section \<open>What a reply adds\<close>

lemma list_at_addService:
  "list_at (snd (addService P E (Some v) u w t s)) x = list_at s x @ (if x = u then [v] else [])"
  by (simp add: list_at_def uri_list_addService)

definition announcements :: "broadcast_message \<Rightarrow> backend_server \<Rightarrow> string \<Rightarrow> service_msg \<Rightarrow> backend_service list" where
  "announcements m srv u service =
     (if u = svc_uri service then [announced_service m srv service] else []) @
     (if u = direct_uri m service then [announced_service m srv service] else [])"

lemma list_at_add_services:
  "list_at (add_services P E m srv n svcs s) u = list_at s u @ concat (map (announcements m srv u) svcs)"
  by (induction svcs arbitrary: n s)
    (simp_all add: Let_def list_at_addService announcements_def)

lemma add_info_query_fields [simp]:
  "itsServicesByURI (add_info_query m srv s q) = itsServicesByURI s"
  "itsPrefixMap (add_info_query m srv s q) = itsPrefixMap s"
  "itsSentinels (add_info_query m srv s q) = itsSentinels s"
  by (simp_all add: add_info_query_def addBackendInfoRequest_def)

lemma foldl_add_info_query_fields [simp]:
  "itsServicesByURI (foldl (add_info_query m srv) s qs) = itsServicesByURI s"
  "itsPrefixMap (foldl (add_info_query m srv) s qs) = itsPrefixMap s"
  "itsSentinels (foldl (add_info_query m srv) s qs) = itsSentinels s"
  by (induction qs arbitrary: s) auto

lemma list_at_add_info_queries [simp]: "list_at (foldl (add_info_query m srv) s qs) = list_at s"
  by (simp add: list_at_def uri_list_def fun_eq_iff)

text \<open>The three outcomes of \<open>processReply\<close>.\<close>

definition reply_accepted :: "'g engine_env \<Rightarrow> broadcast_message \<Rightarrow> bool" where
  "reply_accepted E m \<longleftrightarrow>
     \<not> isShuttingDown E InProcessReply \<and> messagetype m = SERVICE_DISCOVERY_REPLY \<and>
     host m \<noteq> None \<and> services_of m \<noteq> []"

definition registered :: "'g platform \<Rightarrow> 'g engine_env \<Rightarrow> broadcast_message \<Rightarrow> 'g services \<Rightarrow> 'g services" where
  "registered P E m s =
     (let srv = reply_server m (the (host m)) (of_int (throttle_of (the (host m))))
      in foldl (add_info_query m srv) (add_services P E m srv 0 (services_of m) s) (infoQuery m))"

lemma processReply_outcome:
  "processReply P E m s =
     (if \<not> reply_accepted E m then Inr None
      else if throttle_of (the (host m)) < 0 then Inl NumericCast
      else Inr (Some (registered P E m s)))"
  by (auto simp: processReply_def reply_accepted_def registered_def numeric_cast_unsigned_def Let_def
      split: option.split)

text \<open>
  An accepted reply appends each of its services to the list of its URI and to that of
  the per-host URI, in the order of the message, and touches no other list.
\<close>

lemma reply_registers_services:
  assumes "processReply P E m s = Inr (Some s')"
  shows "list_at s' u = list_at s u @
     concat (map (announcements m (reply_server m (the (host m)) (of_int (throttle_of (the (host m)))))
                    u) (services_of m))"
  using assms
  by (auto simp: processReply_outcome registered_def Let_def list_at_add_services split: if_splits)

section \<open>The calls of a reply\<close>

text \<open>
  The calls \<open>processReply\<close> makes on the table for an accepted reply, in their order. Each of
  them takes the mutex of the table for itself, so other threads can come in between.
\<close>

fun service_calls ::
  "'g engine_env \<Rightarrow> broadcast_message \<Rightarrow> backend_server \<Rightarrow> nat \<Rightarrow> service_msg list \<Rightarrow> 'g table_op list" where
  "service_calls E theMessage theServer n [] = []"
| "service_calls E theMessage theServer n (service # rest) =
     (let theService = announced_service theMessage theServer service;
          add = (\<lambda>i theURI. OpAddService (tableEnv E i) (Some theService) theURI (Load theServer) (Throttle theServer))
      in add n (svc_uri service) # add (n + 1) (direct_uri theMessage service) #
         service_calls E theMessage theServer (n + 2) rest)"

definition info_call :: "broadcast_message \<Rightarrow> backend_server \<Rightarrow> info_query \<Rightarrow> 'g table_op" where
  "info_call theMessage theServer q =
     OpAddBackendInfoRequest
       (Some \<lparr>reqBackend = theServer, reqName = query_name q, reqLastUpdate = query_lastupdate q,
              reqSequenceNumber = seqnum theMessage\<rparr>)"

definition reply_calls :: "'g engine_env \<Rightarrow> broadcast_message \<Rightarrow> 'g table_op list" where
  "reply_calls E theMessage =
     (let theServer = reply_server theMessage (the (host theMessage)) (of_int (throttle_of (the (host theMessage))))
      in service_calls E theMessage theServer 0 (services_of theMessage) @
         map (info_call theMessage theServer) (infoQuery theMessage))"

lemma run_service_calls: "run (table_exec P) (service_calls E m srv n svcs) s = Some (add_services P E m srv n svcs s)"
  by (induction svcs arbitrary: n s) (simp_all add: Let_def)

lemma run_info_calls: "run (table_exec P) (map (info_call m srv) qs) s = Some (foldl (add_info_query m srv) s qs)"
  by (induction qs arbitrary: s) (simp_all add: info_call_def add_info_query_def)

text \<open>Made without interruption they give what \<open>processReply\<close> gives.\<close>

lemma run_reply_calls: "run (table_exec P) (reply_calls E m) s = Some (registered P E m s)"
  by (simp add: reply_calls_def registered_def Let_def run_append run_service_calls run_info_calls)

text \<open>Each call adds a service of the message, under one of its two URIs, or an info request.\<close>

lemma service_calls_cases:
  "op \<in> set (service_calls E m srv n svcs) \<Longrightarrow>
     \<exists>i u. \<exists>service \<in> set svcs. u \<in> {svc_uri service, direct_uri m service} \<and>
       op = OpAddService (tableEnv E i) (Some (announced_service m srv service)) u (Load srv) (Throttle srv)"
proof (induction svcs arbitrary: n)
  case (Cons service svcs)
  let ?call = "\<lambda>i u. OpAddService (tableEnv E i) (Some (announced_service m srv service)) u (Load srv) (Throttle srv)"
  from Cons.prems consider "op = ?call n (svc_uri service)" | "op = ?call (n + 1) (direct_uri m service)"
    | "op \<in> set (service_calls E m srv (n + 2) svcs)"
    unfolding service_calls.simps Let_def by auto
  then show ?case
  proof cases
    case 1
    then show ?thesis by (intro exI [of _ n] exI [of _ "svc_uri service"] bexI [of _ service]) simp_all
  next
    case 2
    then show ?thesis by (intro exI [of _ "n + 1"] exI [of _ "direct_uri m service"] bexI [of _ service]) simp_all
  next
    case 3
    from Cons.IH [OF this] show ?thesis by (meson list.set_intros(2))
  qed
qed simp

lemma reply_calls_cases:
  assumes "op \<in> set (reply_calls E m)"
  obtains (add) i u service where "service \<in> set (services_of m)" "u \<in> {svc_uri service, direct_uri m service}"
    "op = OpAddService (tableEnv E i) (Some (announced_service m (reply_server m (the (host m))
            (of_int (throttle_of (the (host m))))) service)) u
          (host_load (the (host m))) (of_int (throttle_of (the (host m))))"
  | (info) r where "op = OpAddBackendInfoRequest (Some r)"
proof -
  let ?srv = "reply_server m (the (host m)) (of_int (throttle_of (the (host m))))"
  from assms consider "op \<in> set (service_calls E m ?srv 0 (services_of m))"
    | "op \<in> set (map (info_call m ?srv) (infoQuery m))" by (auto simp: reply_calls_def Let_def)
  then show thesis
  proof cases
    case 1
    from service_calls_cases [OF this] show thesis by (auto simp: reply_server_def intro: add)
  next
    case 2
    then show thesis by (auto simp: info_call_def intro: info)
  qed
qed

text \<open>The handler of a receive that brought a datagram, whatever it holds.\<close>

lemma handle_datagram:
  "handleFrontendRead P W E (Received b) e =
     (let m = snd (ParseFromString W b)
      in if \<not> reply_accepted E m then Inr (post_receive e)
         else if throttle_of (the (host m)) < 0 then Inl NumericCast
         else Inr (post_receive (e\<lparr>itsServices := registered P E m (itsServices e),
                                   itsReceivedResponses := itsReceivedResponses e + 1\<rparr>)))"
  by (simp add: handleFrontendRead_def processReply_engine_def processReply_outcome Let_def)

section \<open>The deadline\<close>

text \<open>
  C26. At the deadline the services that did not carry the sequence number of the round go,
  if any reply came in or the allowed number of silent rounds is used up; otherwise every
  list stays as it is. A single backend that missed a single round is thus dropped at once
  when another one answered, whatever \<open>heartbeat.max_skipped_cycles\<close> is.
\<close>

theorem deadline_prunes:
  assumes "handleDeadlineTimer P N W E False e = Inr e'"
  shows "list_at (itsServices e') u =
     (if itsReceivedResponses e > 0 \<or> itsSkippedCycles e + 1 > itsMaxSkippedCycles e
      then [svc \<leftarrow> list_at (itsServices e) u. SequenceNumber svc = uint (itsFrontendSequence e)]
      else list_at (itsServices e) u)"
proof -
  have "itsServices e' = (if pruning_due e then prune_services P E e else itsServices e)"
    using assms by (auto simp: deadline_closes_round post_receive_def elim!: startServiceDiscovery_cases
        split: if_splits)
  then show ?thesis
    by (simp add: pruning_due_def list_at_def uri_list_prune split: option.split)
qed

theorem deadline_prunes_witness:
  "list_at (itsServices (close_round reference_platform sample_engine_env
     (sample_engine\<lparr>itsServices := sample_table ''random'', itsReceivedResponses := 1,
                     itsFrontendSequence := 2\<rparr>))) ''/wms'' = []"
proof -
  let ?e = "sample_engine\<lparr>itsServices := sample_table ''random'', itsReceivedResponses := 1,
                     itsFrontendSequence := 2\<rparr>"
  let ?E = "sample_engine_env\<lparr>isShuttingDown := \<lambda>site. True\<rparr>"
  have "handleDeadlineTimer reference_platform sample_net sample_wire ?E False ?e =
      Inr (close_round reference_platform ?E ?e)"
    by (simp add: deadline_closes_round)
  moreover have "close_round reference_platform ?E ?e = close_round reference_platform sample_engine_env ?e"
    by (simp add: close_round_def prune_services_def)
  moreover have "list_at (itsServices ?e) ''/wms'' = [sample_service ''a'' 1, sample_service ''b'' 1]"
    by (simp add: list_at_def uri_list_def sample_table_eq)
  ultimately show ?thesis
    using deadline_prunes [of reference_platform sample_net sample_wire ?E ?e _ "''/wms''"] by simp
qed

section \<open>A frontend that has been launched\<close>

lemma launch_frontend_start:
  assumes "launch N W E ModeFrontend e = Inr e'"
  shows "\<exists>services boundAt e1. setForwarding (itsForwardingMode e) (itsBalanceFactor e) (itsStickyCookie e)
       (itsServices e) = Inr services \<and>
     startServiceDiscovery N W E
       (e\<lparr>itsReactor := True, servicesReactor := True, itsMode := ModeFrontend, itsServices := services, boundTo := boundAt\<rparr>) =
       Inr e1 \<and> e' = e1\<lparr>ioThread := True\<rparr>"
  using assms by (auto simp: launch_def setReactor_def frontendMode_def Let_def split: sum.splits option.splits if_splits)

definition sample_frontend :: "nat engine" where
  "sample_frontend =
     (case new_engine sample_net sample_config of
        Inl x \<Rightarrow> sample_engine
      | Inr e \<Rightarrow> (case launch sample_net sample_wire sample_engine_env ModeFrontend e of
                    Inl x \<Rightarrow> sample_engine | Inr e' \<Rightarrow> e'))"

lemma sample_new_engine:
  "new_engine sample_net sample_config =
     Inr (sample_engine\<lparr>itsBackendSocket := (''127.0.0.1'', itsUdpListenerPort sample_engine)\<rparr>)"
  by (simp add: new_engine_def sample_engine_def engine_config_def sample_config_def get_optional_def)

lemma sample_request_datagram: "sendDiscoveryRequest sample_wire sample_engine_env cfg n = ''request''"
  by (simp add: sendDiscoveryRequest_def sample_wire_def discovery_request_def)

lemma sample_requests:
  "send_requests sample_net b [''10.0.0.2:31337''] = Inr [((''10.0.0.2'', 31337), b)]"
  by simp

lemma sample_launch_wire:
  "launch sample_net W sample_engine_env ModeFrontend (sample_engine\<lparr>itsBackendSocket := b\<rparr>) =
   Inr (sample_engine\<lparr>itsBackendSocket := b, itsReactor := True, servicesReactor := True, itsMode := ModeFrontend,
          itsServices := empty_services\<lparr>itsFwdMode := Random, itsBalancingCoefficient := Fin 2,
                           itsCookieName := ''smartmet-session-id''\<rparr>,
          boundTo := Some (''0.0.0.0'', itsFrontendUdpPort sample_engine), itsFrontendSequence := 1,
          sentDatagrams := [((''10.0.0.2'', 31337),
            sendDiscoveryRequest W sample_engine_env (itsServer sample_engine) 1)],
          timerArmed := True, postedReceives := 1, ioThread := True\<rparr>)"
  by (simp add: launch_def setReactor_def frontendMode_def setForwarding_def startServiceDiscovery_def Let_def
      post_receive_def sample_requests del: send_requests.simps)

lemma sample_launch:
  "launch sample_net sample_wire sample_engine_env ModeFrontend
     (sample_engine\<lparr>itsBackendSocket := b\<rparr>) =
   Inr (sample_engine\<lparr>itsBackendSocket := b, itsReactor := True, servicesReactor := True, itsMode := ModeFrontend,
          itsServices := empty_services\<lparr>itsFwdMode := Random, itsBalancingCoefficient := Fin 2,
                           itsCookieName := ''smartmet-session-id''\<rparr>,
          boundTo := Some (''0.0.0.0'', itsFrontendUdpPort sample_engine),
          itsFrontendSequence := 1, sentDatagrams := [((''10.0.0.2'', 31337), ''request'')],
          timerArmed := True, postedReceives := 1, ioThread := True\<rparr>)"
  by (simp add: sample_launch_wire sample_request_datagram)

lemma sample_deadline:
  assumes "itsBackendUdpListeners e = [''10.0.0.2:31337'']"
  shows "\<exists>e'. handleDeadlineTimer reference_platform sample_net W sample_engine_env False e = Inr e' \<and>
     itsBackendUdpListeners e' = [''10.0.0.2:31337''] \<and> postedReceives e' = 1 \<and>
     itsFrontendSequence e' = (itsFrontendSequence e + 1) mod 65535 \<and>
     itsMaxSkippedCycles e' = itsMaxSkippedCycles e \<and>
     completedReceives e' = completedReceives e @ replicate (postedReceives e) Cancelled"
  using assms by (simp add: deadline_closes_round startServiceDiscovery_def Let_def post_receive_def
      sample_requests del: send_requests.simps)

lemma sample_frontend_fields [simp]:
  "itsFrontendSequence sample_frontend = 1" "timerArmed sample_frontend = True"
  "postedReceives sample_frontend = 1" "itsReceivedResponses sample_frontend = 0"
  "itsSkippedCycles sample_frontend = 0" "itsMaxSkippedCycles sample_frontend = 2"
  "completedReceives sample_frontend = []"
  by (simp_all add: sample_frontend_def sample_new_engine sample_launch)

text \<open>
  The heartbeat goes on: at every deadline, unless the server is shutting down or the
  port of a listener is not a number, the next round is asked for, with the next sequence
  number, one posted receive and the timer armed again, however the round went.
\<close>

lemma heartbeat_goes_on:
  assumes "\<not> isShuttingDown E AtDeadline"
    and "send_requests N (sendDiscoveryRequest W E (itsServer e)
           (uint ((itsFrontendSequence e + 1) mod 65535))) (itsBackendUdpListeners e) = Inr sent"
  shows "\<exists>e'. handleDeadlineTimer P N W E False e = Inr e' \<and> timerArmed e' \<and> postedReceives e' = 1 \<and>
     itsFrontendSequence e' = (itsFrontendSequence e + 1) mod 65535 \<and>
     sentDatagrams e' = sentDatagrams e @ sent \<and> itsReceivedResponses e' = 0"
  using assms by (simp add: deadline_closes_round startServiceDiscovery_def Let_def post_receive_def)

section \<open>Listeners\<close>

definition system_failure :: "net \<Rightarrow> string \<Rightarrow> bool" where
  "system_failure N st \<longleftrightarrow>
     (\<exists>addr thePort. st = addr @ '':'' @ thePort \<and> CHR '':'' \<notin> set addr \<and>
        (make_address_v4 N addr = None \<or>
         (\<exists>a n. make_address_v4 N addr = Some a \<and> stoi N thePort = Some n \<and> sendError N (a, of_int n))))"

text \<open>
  C35. The requests go out listener by listener up to the first whose address or send fails
  with a \<open>system_error\<close>: the listeners behind it get none in any round, as if they were not
  configured.
\<close>

theorem failing_listener_hides_rest:
  assumes "system_failure N bad"
  shows "send_requests N buf (xs @ bad # ys) = send_requests N buf xs"
proof -
  obtain addr thePort where bad: "bad = addr @ CHR '':'' # thePort" "CHR '':'' \<notin> set addr"
    "make_address_v4 N addr = None \<or>
     (\<exists>a n. make_address_v4 N addr = Some a \<and> stoi N thePort = Some n \<and> sendError N (a, of_int n))"
    using assms by (auto simp: system_failure_def)
  have stop: "send_requests N buf (bad # ys) = Inr []"
    using bad by auto
  show ?thesis
  proof (induction xs)
    case Nil
    show ?case by (simp add: stop del: send_requests.simps(2))
  next
    case (Cons x xs)
    then show ?case
      by (cases "find_char (CHR '':'') x") (simp_all add: Cons del: find_char_None split: option.split)
  qed
qed

theorem failing_listener_hides_rest_witness:
  "send_requests sample_net ''request'' [''10.0.0.2:31337'', ''nowhere:31337'', ''10.0.0.3:31337''] =
   Inr [((''10.0.0.2'', 31337), ''request'')]"
proof -
  have "system_failure sample_net ''nowhere:31337''"
    unfolding system_failure_def by (intro exI [of _ "''nowhere''"] exI [of _ "''31337''"]) simp
  from failing_listener_hides_rest [OF this, of "''request''" "[''10.0.0.2:31337'']" "[''10.0.0.3:31337'']"]
  show ?thesis by simp
qed

end
