(* ===== verification/Frontend_Node.thy ===== *)
theory Frontend_Node
  imports Discovery
begin

text \<open>
  The frontend as a state machine: its io thread, the reactor of Boost.Asio that completes
  its receives, and the threads of the server that use the table meanwhile.
\<close>

section \<open>Steps\<close>

text \<open>
  Where the io thread is: in \<open>io_context::run\<close>, in \<open>processReply\<close> with these calls on the
  table still to be made, or asleep between the end of a round and the next one.
\<close>

datatype 'g io_task = Waiting | InReply "'g table_op list" | Asleep

type_synonym 'g frontend = "'g engine \<times> 'g io_task"

fun carries_reply :: "wire \<Rightarrow> 'g engine_env \<Rightarrow> completion \<Rightarrow> bool" where
  "carries_reply W E (Received b) = reply_accepted E (snd (ParseFromString W b))"
| "carries_reply W E c = False"

definition wake_up :: "net \<Rightarrow> wire \<Rightarrow> 'g engine_env \<Rightarrow> 'g engine \<Rightarrow> exn + 'g engine" where
  "wake_up N W E e = (if isShuttingDown E AtDeadline then Inr e else startServiceDiscovery N W E e)"

text \<open>
  What comes in and what the other threads call are parameters: \<open>arrives e d\<close> allows the
  datagram \<open>d\<close> in state \<open>e\<close>, \<open>accept e m\<close> the reply \<open>m\<close> that is read, \<open>allowed op\<close> the call
  \<open>op\<close>. The readings are arbitrary at each step, and other threads can call at any time.
\<close>

inductive frontend_step ::
  "'g platform \<Rightarrow> wire \<Rightarrow> ('g engine \<Rightarrow> string \<Rightarrow> bool) \<Rightarrow>
     ('g engine \<Rightarrow> broadcast_message \<Rightarrow> bool) \<Rightarrow> ('g table_op \<Rightarrow> bool) \<Rightarrow>
     'g frontend \<Rightarrow> 'g frontend \<Rightarrow> bool"
  for P :: "'g platform" and W :: wire and arrives :: "'g engine \<Rightarrow> string \<Rightarrow> bool"
    and accept :: "'g engine \<Rightarrow> broadcast_message \<Rightarrow> bool"
    and allowed :: "'g table_op \<Rightarrow> bool" where
  datagram_arrives:
    "postedReceives e > 0 \<Longrightarrow> arrives e d \<Longrightarrow>
       frontend_step P W arrives accept allowed (e, Waiting) (receive_datagram d e, Waiting)"
| receive_error:
    "postedReceives e > 0 \<Longrightarrow> frontend_step P W arrives accept allowed (e, Waiting) (receive_fails e, Waiting)"
| reply_begins:
    "completedReceives e = q # cs \<Longrightarrow> completion_of q (itsReceiveBuffer e) = Received b \<Longrightarrow>
       m = snd (ParseFromString W b) \<Longrightarrow> reply_accepted E m \<Longrightarrow> 0 \<le> throttle_of (the (host m)) \<Longrightarrow>
       accept e m \<Longrightarrow>
       frontend_step P W arrives accept allowed (e, Waiting) (e\<lparr>completedReceives := cs\<rparr>, InReply (reply_calls E m))"
| reply_call:
    "table_exec P op (itsServices e) = Some s \<Longrightarrow>
       frontend_step P W arrives accept allowed (e, InReply (op # ops)) (e\<lparr>itsServices := s\<rparr>, InReply ops)"
| reply_ends:
    "frontend_step P W arrives accept allowed (e, InReply [])
       (post_receive (e\<lparr>itsReceivedResponses := itsReceivedResponses e + 1\<rparr>), Waiting)"
| other_completion:
    "completedReceives e = q # cs \<Longrightarrow> c = completion_of q (itsReceiveBuffer e) \<Longrightarrow> \<not> carries_reply W E c \<Longrightarrow>
       handleFrontendRead P W E c (e\<lparr>completedReceives := cs\<rparr>) = Inr e' \<Longrightarrow>
       frontend_step P W arrives accept allowed (e, Waiting) (e', Waiting)"
| deadline:
    "timerArmed e \<Longrightarrow> frontend_step P W arrives accept allowed (e, Waiting) (close_round P E e, Asleep)"
| wakes_up:
    "wake_up N W E e = Inr e' \<Longrightarrow> frontend_step P W arrives accept allowed (e, Asleep) (e', Waiting)"
| other_thread:
    "allowed op \<Longrightarrow> table_exec P op (itsServices e) = Some s \<Longrightarrow>
       frontend_step P W arrives accept allowed (e, t) (e\<lparr>itsServices := s\<rparr>, t)"

inductive frontend_reachable ::
  "'g platform \<Rightarrow> wire \<Rightarrow> ('g engine \<Rightarrow> string \<Rightarrow> bool) \<Rightarrow>
     ('g engine \<Rightarrow> broadcast_message \<Rightarrow> bool) \<Rightarrow> ('g table_op \<Rightarrow> bool) \<Rightarrow>
     'g frontend \<Rightarrow> bool"
  for P :: "'g platform" and W :: wire and arrives :: "'g engine \<Rightarrow> string \<Rightarrow> bool"
    and accept :: "'g engine \<Rightarrow> broadcast_message \<Rightarrow> bool"
    and allowed :: "'g table_op \<Rightarrow> bool" where
  launched:
    "new_engine N C = Inr e \<Longrightarrow> launch N' W E ModeFrontend e = Inr e' \<Longrightarrow>
       frontend_reachable P W arrives accept allowed (e', Waiting)"
| moved:
    "frontend_reachable P W arrives accept allowed x \<Longrightarrow> frontend_step P W arrives accept allowed x y \<Longrightarrow>
       frontend_reachable P W arrives accept allowed y"

text \<open>A completion that carries no reply changes no more than the receives.\<close>

lemma other_completion_outcome:
  assumes "handleFrontendRead P W E c e = Inr e'" and "\<not> carries_reply W E c"
  shows "e' = (if c = Aborted then e else post_receive e)"
  using assms by (cases c) (auto simp: handle_datagram Let_def, auto simp: handleFrontendRead_def)

section \<open>The handlers are runs of steps\<close>

lemma calls_made:
  assumes "run (table_exec P) ops (itsServices e) = Some s"
  shows "(frontend_step P W arrives accept allowed)\<^sup>*\<^sup>* (e, InReply ops) (e\<lparr>itsServices := s\<rparr>, InReply [])"
  using assms
proof (induction ops arbitrary: e)
  case (Cons op ops)
  then obtain s1 where s1: "table_exec P op (itsServices e) = Some s1" "run (table_exec P) ops s1 = Some s"
    by (auto split: option.splits)
  have "(frontend_step P W arrives accept allowed)\<^sup>*\<^sup>* (e\<lparr>itsServices := s1\<rparr>, InReply ops) (e\<lparr>itsServices := s\<rparr>, InReply [])"
    using Cons.IH [of "e\<lparr>itsServices := s1\<rparr>"] s1(2) by simp
  with reply_call [OF s1(1)] show ?case by (rule converse_rtranclp_into_rtranclp)
next
  case (Nil e)
  then have "e\<lparr>itsServices := s\<rparr> = e" by (cases e) simp
  then show ?case by simp
qed

lemma frontend_reachable_steps:
  "(frontend_step P W arrives accept allowed)\<^sup>*\<^sup>* x y \<Longrightarrow> frontend_reachable P W arrives accept allowed x \<Longrightarrow>
     frontend_reachable P W arrives accept allowed y"
  by (induction rule: rtranclp_induct) (auto intro: moved)

text \<open>A reply that arrives at an idle frontend and is handled without interruption.\<close>

definition reply_heard ::
  "'g platform \<Rightarrow> 'g engine_env \<Rightarrow> string \<Rightarrow> broadcast_message \<Rightarrow> 'g engine \<Rightarrow> 'g engine" where
  "reply_heard P E d m e =
     post_receive ((receive_datagram d e)\<lparr>completedReceives := [],
       itsServices := registered P E m (itsServices e), itsReceivedResponses := itsReceivedResponses e + 1\<rparr>)"

lemma received_content: "take (length (received d)) (itsReceiveBuffer (receive_datagram d e)) = received d"
  by (simp add: receive_datagram_def)

lemma reply_is_heard:
  assumes "postedReceives e > 0" and "arrives e d" and "completedReceives e = []" and "m = snd (ParseFromString W (received d))"
    and "reply_accepted E m" and "0 \<le> throttle_of (the (host m))" and "accept (receive_datagram d e) m"
  shows "(frontend_step P W arrives accept allowed)\<^sup>*\<^sup>* (e, Waiting) (reply_heard P E d m e, Waiting)"
proof -
  let ?step = "frontend_step P W arrives accept allowed" and ?e = "receive_datagram d e"
  let ?e' = "?e\<lparr>completedReceives := []\<rparr>"
  have begins: "?step (?e, Waiting) (?e', InReply (reply_calls E m))"
    by (rule reply_begins [where q = "Transferred (length (received d))" and b = "received d", OF _ _ assms(4)])
      (use assms(3,5-7) in \<open>simp_all add: received_content, simp add: receive_datagram_def\<close>)
  have same: "itsServices ?e' = itsServices e" "itsReceivedResponses ?e' = itsReceivedResponses e"
    by (simp_all add: receive_datagram_def)
  have calls: "?step\<^sup>*\<^sup>* (?e', InReply (reply_calls E m))
      (?e'\<lparr>itsServices := registered P E m (itsServices e)\<rparr>, InReply [])"
    by (rule calls_made) (simp add: run_reply_calls same)
  have ends: "?step (?e'\<lparr>itsServices := registered P E m (itsServices e)\<rparr>, InReply []) (reply_heard P E d m e, Waiting)"
    using reply_ends [of P W arrives accept allowed "?e'\<lparr>itsServices := registered P E m (itsServices e)\<rparr>"] same
    by (simp add: reply_heard_def)
  from datagram_arrives [where arrives = arrives, OF assms(1,2)] begins calls ends show ?thesis
    by (meson converse_rtranclp_into_rtranclp rtranclp.rtrancl_into_rtrancl)
qed

text \<open>
  C11. The steps of the state machine are those of the code: a whole handler is the run of its
  steps in which no other thread comes in between.
\<close>

theorem handlers_are_runs:
  "(timerArmed e \<and> handleDeadlineTimer P N W E False e = Inr e' \<longrightarrow>
      (frontend_step P W (\<lambda>e d. True) (\<lambda>e m. True) allowed)\<^sup>*\<^sup>* (e, Waiting) (e', Waiting)) \<and>
   (completedReceives e = q # cs \<and>
      handleFrontendRead P W E (completion_of q (itsReceiveBuffer e)) (e\<lparr>completedReceives := cs\<rparr>) = Inr e' \<longrightarrow>
      (frontend_step P W (\<lambda>e d. True) (\<lambda>e m. True) allowed)\<^sup>*\<^sup>* (e, Waiting) (e', Waiting))"
proof (intro conjI impI; elim conjE)
  assume "timerArmed e" "handleDeadlineTimer P N W E False e = Inr e'"
  then show "(frontend_step P W (\<lambda>e d. True) (\<lambda>e m. True) allowed)\<^sup>*\<^sup>* (e, Waiting) (e', Waiting)"
    using deadline [of e P W "\<lambda>e d. True" "\<lambda>e m. True" allowed E] wakes_up [of N W E "close_round P E e" e' P "\<lambda>e d. True" "\<lambda>e m. True" allowed]
    by (auto simp: deadline_closes_round wake_up_def intro: rtranclp.rtrancl_into_rtrancl split: if_splits)
next
  let ?c = "completion_of q (itsReceiveBuffer e)" and ?e = "e\<lparr>completedReceives := cs\<rparr>"
  let ?step = "frontend_step P W (\<lambda>e d. True) (\<lambda>e m. True) allowed"
  assume h: "completedReceives e = q # cs" "handleFrontendRead P W E ?c ?e = Inr e'"
  show "?step\<^sup>*\<^sup>* (e, Waiting) (e', Waiting)"
  proof (cases "carries_reply W E ?c")
    case False
    from other_completion [OF h(1) refl False h(2)] show ?thesis by blast
  next
    case True
    then obtain b where b: "?c = Received b" by (cases ?c) auto
    let ?m = "snd (ParseFromString W b)"
    have m: "reply_accepted E ?m" "0 \<le> throttle_of (the (host ?m))"
      "e' = post_receive (?e\<lparr>itsServices := registered P E ?m (itsServices e),
                            itsReceivedResponses := itsReceivedResponses e + 1\<rparr>)"
      using True h(2) by (auto simp: b handle_datagram Let_def split: if_splits)
    have start: "?step (e, Waiting) (?e, InReply (reply_calls E ?m))"
      by (rule reply_begins [OF h(1) b refl m(1,2)]) simp
    have "?step\<^sup>*\<^sup>* (?e, InReply (reply_calls E ?m))
        (?e\<lparr>itsServices := registered P E ?m (itsServices e)\<rparr>, InReply [])"
      by (rule calls_made) (simp add: run_reply_calls)
    from rtranclp.rtrancl_into_rtrancl [OF converse_rtranclp_into_rtranclp [OF start this] reply_ends]
    show ?thesis by (simp add: m(3))
  qed
qed

theorem handlers_are_runs_witness:
  "\<exists>e'. (frontend_step reference_platform sample_wire (\<lambda>e d. True) (\<lambda>e m. True) (\<lambda>op. False))\<^sup>*\<^sup>*
      (sample_frontend, Waiting) (e', Waiting) \<and> itsFrontendSequence e' = 2"
proof -
  have "itsBackendUdpListeners sample_frontend = [''10.0.0.2:31337'']"
    by (simp add: sample_frontend_def sample_new_engine sample_launch)
  from sample_deadline [OF this, of sample_wire] obtain e' where
    e': "handleDeadlineTimer reference_platform sample_net sample_wire sample_engine_env False sample_frontend = Inr e'"
    "itsFrontendSequence e' = 2" by auto
  have "timerArmed sample_frontend" by simp
  with handlers_are_runs [of sample_frontend reference_platform sample_net sample_wire sample_engine_env e'] e' show ?thesis by blast
qed

section \<open>The invariant\<close>

text \<open>
  The receives the frontend can still be answered through: those posted, and those whose
  handlers will post the next one.
\<close>

definition live_receives :: "'g engine \<Rightarrow> nat" where
  "live_receives e = postedReceives e + length (filter ((\<noteq>) Cancelled) (completedReceives e))"

fun frontend_ok :: "'g frontend \<Rightarrow> bool" where
  "frontend_ok (e, t) \<longleftrightarrow>
     services_wf (itsServices e) \<and> uint (itsFrontendSequence e) < 65535 \<and>
     itsSkippedCycles e \<le> itsMaxSkippedCycles e \<and>
     (t = Waiting \<longrightarrow> timerArmed e \<longrightarrow> live_receives e > 0) \<and>
     (t = Asleep \<longrightarrow> \<not> timerArmed e \<and> postedReceives e = 0)"

lemma sequence_step_bound: "uint ((n + 1 :: 32 word) mod 65535) < 65535"
  by (simp add: uint_mod)

lemma skipped_after_round:
  fixes k m :: "32 word"
  assumes "k \<le> m" and "\<not> k + 1 > m"
  shows "k + 1 \<le> m"
  using assms by simp

lemma frontend_ok_start:
  assumes "startServiceDiscovery N W E e = Inr e'" and "services_wf (itsServices e)"
    and "itsSkippedCycles e \<le> itsMaxSkippedCycles e"
  shows "frontend_ok (e', Waiting)"
  using assms by (elim startServiceDiscovery_cases)
    (simp add: post_receive_def sequence_step_bound live_receives_def)

lemma frontend_ok_step:
  assumes "frontend_step P W arrives accept allowed x y" and "frontend_ok x"
  shows "frontend_ok y"
  using assms
proof cases
  case (datagram_arrives e d)
  with assms(2) show ?thesis by (auto simp: receive_datagram_def live_receives_def)
next
  case (receive_error e)
  with assms(2) show ?thesis by (auto simp: receive_fails_def live_receives_def)
next
  case (reply_begins e q cs b m E)
  with assms(2) show ?thesis by auto
next
  case (reply_call op e s ops)
  with assms(2) table_wf.step [OF _ _ reply_call(3)] show ?thesis by simp
next
  case (reply_ends e)
  with assms(2) show ?thesis by (simp add: post_receive_def live_receives_def)
next
  case (other_completion e q cs c E e')
  from other_completion_outcome [OF other_completion(6,5)] other_completion assms(2) show ?thesis
    by (cases q) (auto simp: post_receive_def live_receives_def)
next
  case (deadline e E)
  have "itsSkippedCycles (close_round P E e) \<le> itsMaxSkippedCycles e" by (auto simp: pruning_due_def)
  with deadline assms(2) show ?thesis by (simp add: prune_services_def wf_intros)
next
  case (wakes_up N E e e')
  with assms(2) frontend_ok_start [of N W E e e'] show ?thesis
    by (auto simp: wake_up_def split: if_splits)
next
  case (other_thread op e s t)
  with assms(2) table_wf.step [OF _ _ other_thread(4)] show ?thesis by (simp add: live_receives_def)
qed

lemma frontend_ok_launched:
  assumes "new_engine N C = Inr e" and "launch N' W E ModeFrontend e = Inr e'"
  shows "frontend_ok (e', Waiting)"
proof -
  obtain services boundAt e1 where l: "setForwarding (itsForwardingMode e) (itsBalanceFactor e)
      (itsStickyCookie e) (itsServices e) = Inr services"
    "startServiceDiscovery N' W E
       (e\<lparr>itsReactor := True, servicesReactor := True, itsMode := ModeFrontend, itsServices := services, boundTo := boundAt\<rparr>) = Inr e1"
    "e' = e1\<lparr>ioThread := True\<rparr>"
    using launch_frontend_start [OF assms(2)] by blast
  have fresh: "itsServices e = empty_services" "itsSkippedCycles e = 0"
    using assms(1) by (auto simp: new_engine_def engine_config_def Let_def split: option.splits)
  have "services_wf services"
    using services_wf_setForwarding [OF _ l(1)] fresh(1) by simp
  with frontend_ok_start [OF l(2)] fresh l(3) show ?thesis by (simp add: live_receives_def)
qed

lemma frontend_reachable_ok: "frontend_reachable P W arrives accept allowed x \<Longrightarrow> frontend_ok x"
proof (induction rule: frontend_reachable.induct)
  case (launched N C e N' E e')
  then show ?case by (rule frontend_ok_launched)
qed (rule frontend_ok_step)

text \<open>
  C10. In every state a frontend can get into, whatever it receives, reads and is asked: the
  sequence number is below 65535, the count of silent rounds is within the allowed one and
  every listed service has a sentinel, in the middle of a reply too. And the frontend never
  gets deaf: whenever its io thread is waiting (no handler runs) and the heartbeat timer is armed,
  a receive is posted or has completed and waits for its handler. While a reply is being
  handled none need be: the handler posts the next one at its end.
\<close>

theorem frontend_invariant:
  assumes "frontend_reachable P W arrives accept allowed (e, t)"
  shows "uint (itsFrontendSequence e) < 65535 \<and> itsSkippedCycles e \<le> itsMaxSkippedCycles e \<and>
     (t = Waiting \<and> timerArmed e \<longrightarrow> postedReceives e > 0 \<or> (\<exists>q \<in> set (completedReceives e). q \<noteq> Cancelled)) \<and>
     {svc. listed (itsServices e) svc \<and> sentinel_of (service_key svc) (itsServices e) = None} = {}"
proof -
  note ok = frontend_reachable_ok [OF assms]
  have "sentinel_of (service_key svc) (itsServices e) \<noteq> None" if "listed (itsServices e) svc" for svc
  proof -
    from that obtain u l f where "omap_find (itsServicesByURI (itsServices e)) u = Some (l, f)" "svc \<in> set l"
      unfolding listed_def list_at_def uri_list_def by (auto split: option.splits) (metis option.inject prod.collapse)
    with ok services_wf_sentinel show ?thesis
      unfolding frontend_ok.simps sentinel_of_def by blast
  qed
  moreover have "\<exists>q \<in> set (completedReceives e). q \<noteq> Cancelled"
    if "t = Waiting" "timerArmed e" "postedReceives e = 0"
  proof -
    have "filter ((\<noteq>) Cancelled) (completedReceives e) \<noteq> []"
      using ok that by (simp add: live_receives_def)
    then show ?thesis by (metis (mono_tags) filter_empty_conv)
  qed
  ultimately show ?thesis using ok by auto
qed

lemma sample_frontend_reachable: "frontend_reachable P sample_wire arrives accept allowed (sample_frontend, Waiting)"
  unfolding sample_frontend_def sample_new_engine sum.case sample_launch
  by (rule launched [OF sample_new_engine sample_launch])

theorem frontend_invariant_witness:
  "{svc. listed (itsServices sample_frontend) svc \<and>
         sentinel_of (service_key svc) (itsServices sample_frontend) = None} = {} \<and>
   (postedReceives sample_frontend > 0 \<or> (\<exists>q \<in> set (completedReceives sample_frontend). q \<noteq> Cancelled))"
  using frontend_invariant [OF sample_frontend_reachable] by simp

section \<open>One buffer for all receives\<close>

text \<open>
  C36. A datagram that has arrived when the deadline comes can be lost: its receive cannot be
  cancelled any more, the receive posted for the next round shares its buffer, and a
  datagram at least as long that arrives before its handler runs replaces it: the handler
  finds the beginning of the second datagram, and the second handler finds it again.
\<close>

theorem overtaken_datagram_is_lost:
  assumes "postedReceives e = 1" and "completedReceives e = []"
    and "handleDeadlineTimer P N W E False (receive_datagram d e) = Inr e1" and "\<not> isShuttingDown E AtDeadline"
    and "length (received d) \<le> length (received d')"
  shows "map (\<lambda>q. completion_of q (itsReceiveBuffer (receive_datagram d' e1)))
       (completedReceives (receive_datagram d' e1)) =
     [Received (take (length (received d)) (received d')), Received (received d')]"
proof -
  have e1: "completedReceives e1 = [Transferred (length (received d))]"
    using assms(1-4) by (auto simp: deadline_closes_round post_receive_def receive_datagram_def
        elim!: startServiceDiscovery_cases)
  have "take n (itsReceiveBuffer (receive_datagram d' e1)) = take n (received d')" if "n \<le> length (received d')" for n
    using that by (simp add: receive_datagram_def)
  with e1 assms(5) show ?thesis by (simp add: receive_datagram_def)
qed


theorem overtaken_datagram_is_lost_witness:
  "\<exists>e1. handleDeadlineTimer reference_platform sample_net sample_wire sample_engine_env False
       (receive_datagram ''reply'' sample_frontend) = Inr e1 \<and>
     map (\<lambda>q. completion_of q (itsReceiveBuffer (receive_datagram ''other'' e1)))
       (completedReceives (receive_datagram ''other'' e1)) = [Received ''other'', Received ''other'']"
proof -
  have "itsBackendUdpListeners (receive_datagram ''reply'' sample_frontend) = [''10.0.0.2:31337'']"
    by (simp add: receive_datagram_def sample_frontend_def sample_new_engine sample_launch)
  from sample_deadline [OF this, of sample_wire] obtain e1 where
    e1: "handleDeadlineTimer reference_platform sample_net sample_wire sample_engine_env False
      (receive_datagram ''reply'' sample_frontend) = Inr e1" by blast
  have "length (received ''reply'') \<le> length (received ''other'')" "received ''other'' = ''other''"
    "length (received ''reply'') = 5"
    by (simp_all add: received_def)
  with overtaken_datagram_is_lost [OF _ _ e1, of "''other''"] e1 show ?thesis by simp
qed

end
