(* ===== verification/Timely.thy ===== *)
theory Timely
  imports Frontend_Node Alignment
begin

text \<open>
  Timely discovery: as long as every accepted reply carries the sequence number of the round
  it is read in, the lists of the table and of the forwarders stay in step, across silent
  rounds, prunings and the wrap of the sequence number at 65535.
\<close>

section \<open>Lists in which the current round comes last\<close>

definition current_last :: "int \<Rightarrow> backend_service list \<Rightarrow> bool" where
  "current_last n = sorted_wrt (\<lambda>x y. SequenceNumber x = n \<longrightarrow> SequenceNumber y = n)"

lemma current_last_oldest_first:
  "current_last n l \<Longrightarrow> oldest_first (\<lambda>it. SequenceNumber it \<noteq> n) l"
  unfolding current_last_def oldest_first_def by (erule sorted_wrt_mono_rel [rotated]) auto

lemma current_last_append:
  "current_last n l \<Longrightarrow> \<forall>svc \<in> set new. SequenceNumber svc = n \<Longrightarrow> current_last n (l @ new)"
  unfolding current_last_def by (induction l) (induction new, auto)

lemma current_last_filter: "current_last n l \<Longrightarrow> current_last n (filter q l)"
  by (simp add: current_last_def sorted_wrt_filter)

lemma current_last_absent: "\<forall>svc \<in> set l. SequenceNumber svc \<noteq> n \<Longrightarrow> current_last n l"
  by (auto simp: current_last_def sorted_wrt_iff_nth_less)

section \<open>The age of a service\<close>

text \<open>\<open>recent n a k\<close>: \<open>k\<close> is the number of one of the last \<open>a + 1\<close> rounds, \<open>n\<close> the current one.\<close>

definition recent :: "int \<Rightarrow> nat \<Rightarrow> int \<Rightarrow> bool" where
  "recent n a k \<longleftrightarrow> (\<exists>i \<le> a. k = (n - int i) mod 65535)"

lemma recent_now: "0 \<le> n \<Longrightarrow> n < 65535 \<Longrightarrow> recent n a n"
  unfolding recent_def by (intro exI [of _ 0]) simp

lemma recent_mono: "recent n a k \<Longrightarrow> a \<le> b \<Longrightarrow> recent n b k"
  unfolding recent_def using order_trans by blast

lemma recent_next:
  assumes "recent n a k"
  shows "recent ((n + 1) mod 65535) (a + 1) k"
proof -
  obtain i where i: "i \<le> a" "k = (n - int i) mod 65535" using assms by (auto simp: recent_def)
  have "((n + 1) mod 65535 - int (i + 1)) mod 65535 = (n - int i) mod 65535"
    by (simp add: mod_diff_left_eq)
  with i show ?thesis unfolding recent_def by (intro exI [of _ "i + 1"]) simp
qed

text \<open>Fewer than 65535 rounds back no number recurs.\<close>

lemma recent_not_next:
  assumes "recent n a k" and "a + 1 < 65535"
  shows "k \<noteq> (n + 1) mod 65535"
proof
  obtain i where i: "i \<le> a" "k = (n - int i) mod 65535" using assms(1) by (auto simp: recent_def)
  assume "k = (n + 1) mod 65535"
  with i have "(n - int i) mod 65535 = (n + 1) mod 65535" by simp
  then have "(65535 :: int) dvd (n - int i) - (n + 1)" by (simp only: mod_eq_dvd_iff)
  moreover have "(n - int i) - (n + 1) = - (int i + 1)" by simp
  ultimately have "(65535 :: int) dvd int i + 1" by (metis dvd_minus_iff)
  then have "65535 \<le> int i + 1" by (rule zdvd_imp_le) simp
  with i(1) assms(2) show False by simp
qed

section \<open>Timely steps\<close>

fun plugin_op :: "'g table_op \<Rightarrow> bool" where
  "plugin_op (OpGetService E r) = True"
| "plugin_op (OpRemoveBackend E h p u) = (u = [])"
| "plugin_op (OpSetBackendAlive h p) = True"
| "plugin_op (OpSignalBackendConnection h p) = True"
| "plugin_op op = False"

text \<open>A reply is timely if it carries the number of the round it is read in.\<close>

definition in_round :: "'g engine \<Rightarrow> broadcast_message \<Rightarrow> bool" where
  "in_round e m \<longleftrightarrow> seqnum m = uint (itsFrontendSequence e)"

text \<open>
  The table while the round \<open>n\<close> is the current one: the forwarders mirror its lists, no
  service is older than \<open>a\<close> rounds, and in each list those of the round come last.
\<close>

definition round_ok :: "int \<Rightarrow> nat \<Rightarrow> 'g services \<Rightarrow> bool" where
  "round_ok n a s \<longleftrightarrow>
     mirrored s \<and> (\<forall>svc. listed s svc \<longrightarrow> recent n a (SequenceNumber svc)) \<and>
     (\<forall>u. current_last n (list_at s u))"

lemma round_ok_older: "round_ok n a s \<Longrightarrow> a \<le> b \<Longrightarrow> round_ok n b s"
  using recent_mono unfolding round_ok_def by blast

subsection \<open>Calls on the table\<close>

fun timely_call :: "int \<Rightarrow> 'g table_op \<Rightarrow> bool" where
  "timely_call n (OpAddService E (Some svc) u w t) = (SequenceNumber svc = n \<and> w = Load (Backend svc))"
| "timely_call n (OpAddBackendInfoRequest req) = True"
| "timely_call n op = False"

lemma timely_calls:
  assumes "op \<in> set (reply_calls E m)"
  shows "timely_call (seqnum m) op"
  using assms by (cases rule: reply_calls_cases) (auto simp: announced_service_def reply_server_def)

lemma list_at_cong: "itsServicesByURI s' = itsServicesByURI s \<Longrightarrow> list_at s' = list_at s"
  by (simp add: list_at_def uri_list_def fun_eq_iff)

lemma round_ok_cong:
  assumes "itsServicesByURI s' = itsServicesByURI s"
  shows "round_ok n a s' = round_ok n a s"
  by (simp add: round_ok_def mirrored_def in_step_cong [OF assms] listed_cong [OF assms] list_at_cong [OF assms])

lemma round_ok_call:
  assumes "round_ok n a s" and "timely_call n op" and "table_exec P op s = Some s'" and "0 \<le> n" and "n < 65535"
  shows "round_ok n a s'"
proof (cases op)
  case (OpAddService E v u w t)
  with assms(2) obtain svc where v: "v = Some svc" "SequenceNumber svc = n" "w = Load (Backend svc)"
    by (cases v) auto
  have s': "s' = snd (addService P E (Some svc) u w t s)" using assms(3) OpAddService v(1) by simp
  have "mirrored s'"
    using mirrored_exec [OF _ _ _ assms(3)] assms(1) OpAddService v by (simp add: round_ok_def)
  moreover have "recent n a (SequenceNumber x)" if "listed s' x" for x
    using that assms(1,4,5) v(2) by (auto simp: s' listed_addService round_ok_def recent_now)
  moreover have "current_last n (list_at s' x)" for x
    using assms(1) v(2) by (auto simp: s' list_at_addService round_ok_def intro: current_last_append)
  ultimately show ?thesis by (simp add: round_ok_def)
next
  case (OpAddBackendInfoRequest req)
  with assms(3) have "itsServicesByURI s' = itsServicesByURI s"
    by (auto simp: addBackendInfoRequest_def split: option.splits)
  from round_ok_cong [OF this] assms(1) show ?thesis by simp
qed (use assms(2) in auto)

lemma list_at_getService [simp]: "list_at (snd (getService P E r s)) = list_at s"
  by (simp add: list_at_def uri_list_getService fun_eq_iff)

lemma list_at_plugin:
  assumes "plugin_op op" and "table_exec P op s = Some s'"
  shows "\<exists>q. \<forall>u. list_at s' u = filter q (list_at s u)"
proof (cases op)
  case (OpRemoveBackend E h p u)
  with assms(2) table_exec_remove have "s' = snd (removeBackend P E h p u s)" by blast
  then show ?thesis
    by (intro exI [of _ "\<lambda>it. \<not> remove_here h p u it"])
      (simp add: list_at_def uri_list_removeBackend split: option.split)
qed (use assms in \<open>auto simp: list_at_cong [OF sentinel_ops_lists(1)] list_at_cong [OF sentinel_ops_lists(2)]
      intro!: exI [of _ "\<lambda>it. True"]\<close>)

lemma plugin_in_order: "plugin_op op \<Longrightarrow> in_order op s"
  by (cases op) auto

lemma plugin_tells_load: "plugin_op op \<Longrightarrow> tells_load op"
  by (cases op) auto

lemma round_ok_plugin:
  assumes "round_ok n a s" and "plugin_op op" and "table_exec P op s = Some s'"
  shows "round_ok n a s'"
proof -
  obtain q where q: "\<And>u. list_at s' u = filter q (list_at s u)"
    using list_at_plugin [OF assms(2,3)] by blast
  have "listed s svc" if "listed s' svc" for svc
    using that by (auto simp: listed_def q)
  moreover have "mirrored s'"
    using mirrored_exec [OF _ plugin_in_order [OF assms(2)] plugin_tells_load [OF assms(2)] assms(3)] assms(1)
    by (simp add: round_ok_def)
  ultimately show ?thesis
    using assms(1) by (simp add: round_ok_def q current_last_filter)
qed

subsection \<open>The invariant\<close>

text \<open>
  While the io thread sleeps, the services are as old as the silent rounds counted; in a
  round they can be one round older.
\<close>

fun timely_ok :: "'g frontend \<Rightarrow> bool" where
  "timely_ok (e, t) \<longleftrightarrow>
     uint (itsFrontendSequence e) < 65535 \<and> itsSkippedCycles e \<le> itsMaxSkippedCycles e \<and>
     unat (itsMaxSkippedCycles e) < 65000 \<and>
     round_ok (uint (itsFrontendSequence e)) (unat (itsSkippedCycles e) + (if t = Asleep then 0 else 1))
       (itsServices e) \<and>
     (case t of InReply ops \<Rightarrow> list_all (timely_call (uint (itsFrontendSequence e))) ops | _ \<Rightarrow> True)"

lemma list_at_prune:
  "list_at (prune_services P E e) u =
     filter (\<lambda>it. SequenceNumber it = uint (itsFrontendSequence e)) (list_at (itsServices e) u)"
  by (simp add: list_at_def uri_list_prune split: option.split)

lemma round_ok_prune:
  assumes "round_ok (uint (itsFrontendSequence e)) a (itsServices e)" and "uint (itsFrontendSequence e) < 65535"
  shows "round_ok (uint (itsFrontendSequence e)) b (prune_services P E e)"
proof -
  let ?n = "uint (itsFrontendSequence e)" and ?s = "prune_services P E e"
  have "mirrored ?s"
    unfolding prune_services_def
  proof (rule info_view.latestSequence_keeps [folded mirrored_def])
    show "mirrored (itsServices e)" using assms(1) by (simp add: round_ok_def)
    show "oldest_first (\<lambda>it. SequenceNumber it \<noteq> ?n) l" if "uri_list (itsServices e) u = Some l" for u l
    proof -
      have "list_at (itsServices e) u = l" by (simp add: list_at_def that)
      with assms(1) show ?thesis by (auto simp: round_ok_def intro: current_last_oldest_first)
    qed
  qed
  moreover have "SequenceNumber svc = ?n" if "listed ?s svc" for svc
    using that by (auto simp: listed_def list_at_prune)
  moreover have "current_last ?n (list_at ?s u)" for u
    using assms(1) by (auto simp: round_ok_def list_at_prune intro: current_last_filter)
  ultimately show ?thesis using assms(2) recent_now [of ?n] by (simp add: round_ok_def)
qed

lemma close_round_skipped:
  "itsSkippedCycles (close_round P E e) \<le> itsMaxSkippedCycles e"
  by (auto simp: pruning_due_def)

lemma timely_ok_close:
  assumes "timely_ok (e, Waiting)"
  shows "timely_ok (close_round P E e, Asleep)"
proof (cases "pruning_due e")
  case True
  with assms close_round_skipped [of P E e] show ?thesis
    by (auto intro: round_ok_prune)
next
  case False
  then have le: "itsSkippedCycles e + 1 \<le> itsMaxSkippedCycles e" by (simp add: pruning_due_def not_less)
  have "unat (itsSkippedCycles e) \<le> unat (itsMaxSkippedCycles e)" "unat (itsMaxSkippedCycles e) < 65000"
    using assms by (simp_all add: word_le_nat_alt)
  then have "unat (itsSkippedCycles e + 1) = unat (itsSkippedCycles e) + 1"
    by (simp add: unat_word_ariths)
  with False le assms show ?thesis by simp
qed

lemma timely_ok_next:
  assumes "timely_ok (e, Asleep)" and "startServiceDiscovery N W E e = Inr e'"
  shows "timely_ok (e', Waiting)"
proof -
  let ?n = "uint (itsFrontendSequence e)" and ?a = "unat (itsSkippedCycles e)"
  have bound: "?n < 65535" "?a + 1 < 65535" "round_ok ?n ?a (itsServices e)"
    using assms(1) by (simp_all add: word_le_nat_alt)
  have e': "itsFrontendSequence e' = (itsFrontendSequence e + 1) mod 65535" "itsServices e' = itsServices e"
    "itsSkippedCycles e' = itsSkippedCycles e" "itsMaxSkippedCycles e' = itsMaxSkippedCycles e"
    using assms(2) by (auto simp: post_receive_def elim!: startServiceDiscovery_cases)
  have n: "uint (itsFrontendSequence e') = (?n + 1) mod 65535"
    unfolding e' by (rule uint_next_sequence [OF bound(1)])
  have age: "recent ?n ?a (SequenceNumber svc)" if "listed (itsServices e) svc" for svc
    using bound(3) that by (simp add: round_ok_def)
  have "current_last ((?n + 1) mod 65535) (list_at (itsServices e) u)" for u
  proof (rule current_last_absent, intro ballI)
    fix svc assume "svc \<in> set (list_at (itsServices e) u)"
    then have "recent ?n ?a (SequenceNumber svc)" by (intro age) (auto simp: listed_def)
    then show "SequenceNumber svc \<noteq> (?n + 1) mod 65535" by (rule recent_not_next [OF _ bound(2)])
  qed
  moreover have "recent ((?n + 1) mod 65535) (?a + 1) (SequenceNumber svc)" if "listed (itsServices e) svc" for svc
    by (rule recent_next [OF age [OF that]])
  ultimately have "round_ok ((?n + 1) mod 65535) (?a + 1) (itsServices e)"
    using bound(3) by (simp add: round_ok_def)
  with assms(1) show ?thesis by (simp add: e' n [unfolded e'])
qed

lemma timely_ok_step:
  assumes "frontend_step P W arrives in_round plugin_op x y" and "timely_ok x"
  shows "timely_ok y"
  using assms
proof cases
  case (datagram_arrives e d)
  with assms(2) show ?thesis by (simp add: receive_datagram_def)
next
  case (receive_error e)
  with assms(2) show ?thesis by (simp add: receive_fails_def)
next
  case (reply_begins e q cs b m E)
  with assms(2) timely_calls [of _ E m] show ?thesis by (simp add: in_round_def list_all_iff)
next
  case (reply_call op e s ops)
  have "round_ok (uint (itsFrontendSequence e)) (unat (itsSkippedCycles e) + 1) s"
    using assms(2) reply_call(1,3) by (intro round_ok_call [of _ _ "itsServices e" op P s]) simp_all
  with reply_call assms(2) show ?thesis by simp
next
  case (reply_ends e)
  with assms(2) show ?thesis by (simp add: post_receive_def)
next
  case (other_completion e q cs c E e')
  from other_completion_outcome [OF other_completion(6,5)] other_completion(1,2) assms(2) show ?thesis
    by (simp add: post_receive_def split: if_splits)
next
  case (deadline e E)
  with assms(2) timely_ok_close show ?thesis by blast
next
  case (wakes_up N E e e')
  show ?thesis
  proof (cases "isShuttingDown E AtDeadline")
    case True
    with wakes_up assms(2) show ?thesis by (auto simp: wake_up_def intro: round_ok_older)
  next
    case False
    with wakes_up assms(2) timely_ok_next [of e N W E e'] show ?thesis by (simp add: wake_up_def)
  qed
next
  case (other_thread op e s t)
  from other_thread(1) assms(2) round_ok_plugin [OF _ other_thread(3,4)] show ?thesis
    unfolding other_thread(2) by (cases t) simp_all
qed

lemma frontend_step_max:
  assumes "frontend_step P W arrives accept allowed x y"
  shows "itsMaxSkippedCycles (fst y) = itsMaxSkippedCycles (fst x)"
  using assms
proof cases
  case (other_completion e q cs c E e')
  from other_completion_outcome [OF other_completion(6,5)] other_completion(1,2) show ?thesis
    by (simp add: post_receive_def)
next
  case (wakes_up N E e e')
  then show ?thesis
    by (auto simp: wake_up_def post_receive_def elim!: startServiceDiscovery_cases split: if_splits)
qed (auto simp: receive_datagram_def receive_fails_def post_receive_def)

lemma timely_ok_launched:
  assumes "new_engine N C = Inr e" and "launch N' W E ModeFrontend e = Inr e'"
    and "unat (itsMaxSkippedCycles e') < 65000"
  shows "timely_ok (e', Waiting)"
proof -
  obtain services boundAt e1 where l: "setForwarding (itsForwardingMode e) (itsBalanceFactor e)
      (itsStickyCookie e) (itsServices e) = Inr services"
    "startServiceDiscovery N' W E
       (e\<lparr>itsReactor := True, servicesReactor := True, itsMode := ModeFrontend, itsServices := services, boundTo := boundAt\<rparr>) = Inr e1"
    "e' = e1\<lparr>ioThread := True\<rparr>"
    using launch_frontend_start [OF assms(2)] by blast
  have fresh: "itsServices e = empty_services" "itsSkippedCycles e = 0" "itsFrontendSequence e = 0"
    using assms(1) by (auto simp: new_engine_def engine_config_def Let_def split: option.splits)
  have none: "itsServicesByURI services = []"
    using setForwarding_fields(1) [OF l(1)] fresh(1) by (simp add: empty_services_def)
  then have empty: "round_ok n a services" for n a
    by (simp add: round_ok_def mirrored_def in_step_def listed_def list_at_def uri_list_def current_last_def)
  have max: "itsMaxSkippedCycles e' = itsMaxSkippedCycles e"
    using l(2,3) by (auto simp: post_receive_def elim!: startServiceDiscovery_cases)
  have "timely_ok (e1, Waiting)"
    by (rule timely_ok_next [OF _ l(2)]) (use fresh assms(3) max empty in simp)
  with l(3) show ?thesis by simp
qed

lemma timely_reachable_ok:
  "frontend_reachable P W arrives in_round plugin_op x \<Longrightarrow> unat (itsMaxSkippedCycles (fst x)) < 65000 \<Longrightarrow> timely_ok x"
proof (induction rule: frontend_reachable.induct)
  case (launched N C e N' E e')
  then show ?case using timely_ok_launched by fastforce
next
  case (moved x y)
  then show ?case using timely_ok_step frontend_step_max by metis
qed

lemma timely_ok_age:
  "timely_ok (e, t) \<Longrightarrow>
     round_ok (uint (itsFrontendSequence e)) (unat (itsSkippedCycles e) + 1) (itsServices e)"
  by (auto split: if_splits intro: round_ok_older)

text \<open>
  C3. In every state a frontend reaches while all accepted replies carry the number of the
  round they are read in, with fewer than 65000 allowed silent rounds, each forwarder holds,
  position by position, exactly the services listed for its URI, with the host, the port
  and the load they were announced with: the index it answers names the backend it meant,
  and the loads it weighs by are those of the listed announcements. This holds at every
  moment another thread can ask, in the middle of a reply and while the io thread sleeps.
\<close>

theorem timely_forwarders_mirror_table:
  assumes "frontend_reachable P W arrives in_round plugin_op (e, t)" and "unat (itsMaxSkippedCycles e) < 65000"
    and "omap_find (itsServicesByURI (itsServices e)) uri = Some (l, f)"
  shows "itsBackendInfos f = map service_info l"
  using timely_reachable_ok [OF assms(1)] assms(2) mirroredD [OF _ assms(3)] by (simp add: round_ok_def)

lemma timely_lists_aligned:
  assumes "frontend_reachable P W arrives in_round plugin_op (e, t)" and "unat (itsMaxSkippedCycles e) < 65000"
  shows "aligned (itsServices e)"
  using timely_reachable_ok [OF assms(1)] assms(2) by (simp add: round_ok_def mirrored_aligned)

text \<open>The sample frontend after its first reply.\<close>

definition sample_frontend_1 :: "nat engine" where
  "sample_frontend_1 =
     reply_heard reference_platform sample_engine_env ''reply'' (sample_reply ''a'' 1) sample_frontend"

lemma sample_frontend_1_fields [simp]:
  "itsServices sample_frontend_1 =
     registered reference_platform sample_engine_env (sample_reply ''a'' 1) (itsServices sample_frontend)"
  "itsMaxSkippedCycles sample_frontend_1 = 2" "itsSkippedCycles sample_frontend_1 = 0"
  "itsFrontendSequence sample_frontend_1 = 1"
  by (simp_all add: sample_frontend_1_def reply_heard_def post_receive_def receive_datagram_def)

lemma sample_received: "ParseFromString sample_wire (received ''reply'') = (True, sample_reply ''a'' 1)"
  by (simp add: sample_wire_def received_def)

lemma sample_frontend_1_timely:
  "frontend_reachable reference_platform sample_wire (\<lambda>e d. True) in_round plugin_op (sample_frontend_1, Waiting)"
  unfolding sample_frontend_1_def
  by (rule frontend_reachable_steps [OF reply_is_heard sample_frontend_reachable])
    (simp_all add: sample_received reply_accepted_def throttle_of_def in_round_def receive_datagram_def)

theorem timely_forwarders_mirror_table_witness:
  "\<exists>l f. omap_find (itsServicesByURI (itsServices sample_frontend_1)) ''/a/wms'' = Some (l, f) \<and>
     itsBackendInfos f = [new_backend_info ''a'' 80 (Fin 0)]"
proof -
  have max: "unat (itsMaxSkippedCycles sample_frontend_1) < 65000" by simp
  obtain f where e: "omap_find (itsServicesByURI (itsServices sample_frontend_1)) ''/a/wms'' =
       Some ([announced_service (sample_reply ''a'' 1)
                (reply_server (sample_reply ''a'' 1) (the (host (sample_reply ''a'' 1))) 5)
                (hd (services_of (sample_reply ''a'' 1)))], f)"
    by (simp add: registered_def find_add_to_list direct_uri_def throttle_of_def Let_def
        sample_frontend_def sample_new_engine sample_launch empty_services_def)
  from timely_forwarders_mirror_table [OF sample_frontend_1_timely max e] e show ?thesis
    by (simp add: announced_service_def reply_server_def service_info_def)
qed

end
