(* ===== verification/Exchange.thy ===== *)
theory Exchange
  imports Timely
begin

text \<open>
  Both sides together: what a backend answers, how its answer reaches the table of a
  frontend and stays there, how long a silent cluster is remembered, and the pause.
\<close>

section \<open>The backend\<close>

definition reply_due :: "net \<Rightarrow> wire \<Rightarrow> 'g engine_env \<Rightarrow> endpoint \<Rightarrow> string \<Rightarrow> 'g engine \<Rightarrow> bool" where
  "reply_due N W E r d e \<longleftrightarrow>
     \<not> fst (isPaused (universal_time E) e) \<and> \<not> isLoadHigh E \<and>
     messagetype (snd (ParseFromString W d)) = SERVICE_DISCOVERY_REQUEST \<and> \<not> sendError N r"

lemma isPaused_fields [simp]:
  "itsServer (snd (isPaused now e)) = itsServer e"
  "postedReceives (snd (isPaused now e)) = postedReceives e"
  "sentDatagrams (snd (isPaused now e)) = sentDatagrams e"
  by (simp_all add: isPaused_def split: option.split)

lemma isPaused_completed [simp]:
  "completedReceives (snd (isPaused now e)) = completedReceives e"
  by (simp add: isPaused_def split: option.split)

lemma processRequest_running:
  assumes "\<And>site. \<not> isShuttingDown E site"
  shows "processRequest W E cfg m =
     (if messagetype m = SERVICE_DISCOVERY_REQUEST
      then map_sum id (SerializeToString W) (discovery_reply E cfg (seqnum m)) else Inr [])"
  using assms by (simp add: processRequest_def sendDiscoveryReply_def split: message_type.split sum.split)

lemma handleBackendRead_running:
  assumes "isShuttingDown E = (\<lambda>site. False)"
  shows "handleBackendRead N W E r (Received b) e =
     (let (paused, e1) = isPaused (universal_time E) e; m = snd (ParseFromString W b)
      in if paused \<or> isLoadHigh E \<or> messagetype m \<noteq> SERVICE_DISCOVERY_REQUEST then Inr (post_receive e1)
         else map_sum id
                (\<lambda>reply. post_receive (if SerializeToString W reply = [] \<or> sendError N r then e1
                   else e1\<lparr>sentDatagrams := sentDatagrams e1 @ [(r, SerializeToString W reply)]\<rparr>))
                (discovery_reply E (itsServer e) (seqnum m)))"
proof -
  obtain paused e1 where p: "isPaused (universal_time E) e = (paused, e1)" by fastforce
  have e1: "itsServer e1 = itsServer e"
    using isPaused_fields [of "universal_time E" e] by (simp_all add: p)
  have running: "\<not> isShuttingDown E site" for site by (simp add: assms(1))
  show ?thesis
    by (cases "discovery_reply E (itsServer e) (seqnum (snd (ParseFromString W b)))")
      (simp_all add: handleBackendRead_def processRequest_running [OF running] running p e1 startListening_def)
qed

text \<open>
  C30. A running backend answers a datagram exactly if it is not paused, its load is not high,
  the answer can be sent and the message object holds the type of a request after the decoding,
  whether or not the decoding succeeded: with its own reply under the sequence number of that
  message. So a datagram which leaves the message at its defaults is answered like a request
  with the number 0. In every case it listens again.
\<close>

theorem backend_answers_requests:
  assumes "handleBackendRead N W E r (Received d) e = Inr e'"
    and "isShuttingDown E = (\<lambda>site. False)"
  shows "postedReceives e' = postedReceives e + 1 \<and>
     (if reply_due N W E r d e
      then \<exists>m. discovery_reply E (itsServer e) (seqnum (snd (ParseFromString W d))) = Inr m \<and>
             sentDatagrams e' = sentDatagrams e @
               (if SerializeToString W m = [] then [] else [(r, SerializeToString W m)])
      else sentDatagrams e' = sentDatagrams e) \<and>
     (snd (ParseFromString W d) = default_message \<and> \<not> fst (isPaused (universal_time E) e) \<and>
        \<not> isLoadHigh E \<and> \<not> sendError N r \<longrightarrow>
      (\<exists>m. discovery_reply E (itsServer e) 0 = Inr m \<and>
         sentDatagrams e' = sentDatagrams e @
           (if SerializeToString W m = [] then [] else [(r, SerializeToString W m)])))"
proof -
  let ?m = "snd (ParseFromString W d)" and ?p = "isPaused (universal_time E) e"
  let ?sent = "\<lambda>m. sentDatagrams e' = sentDatagrams e @
      (if SerializeToString W m = [] then [] else [(r, SerializeToString W m)])"
  note step = assms(1) [unfolded handleBackendRead_running [OF assms(2)], unfolded Let_def case_prod_beta]
  have outcome: "postedReceives e' = postedReceives e + 1 \<and>
     (if reply_due N W E r d e then \<exists>m. discovery_reply E (itsServer e) (seqnum ?m) = Inr m \<and> ?sent m
      else sentDatagrams e' = sentDatagrams e)"
  proof (cases "fst ?p \<or> isLoadHigh E \<or> messagetype ?m \<noteq> SERVICE_DISCOVERY_REQUEST")
    case True
    with step show ?thesis by (auto simp: reply_due_def post_receive_def)
  next
    case False
    then obtain m where "discovery_reply E (itsServer e) (seqnum ?m) = Inr m" using step by auto
    with False step show ?thesis by (auto simp: reply_due_def post_receive_def split: if_splits)
  qed
  moreover have "\<exists>m. discovery_reply E (itsServer e) 0 = Inr m \<and> ?sent m"
    if "?m = default_message" "\<not> fst ?p" "\<not> isLoadHigh E" "\<not> sendError N r"
  proof -
    have "reply_due N W E r d e" "seqnum ?m = 0"
      using that by (simp_all add: reply_due_def default_message_def)
    with outcome show ?thesis by metis
  qed
  ultimately show ?thesis by blast
qed

definition sample_backend :: "nat engine" where
  "sample_backend = sample_engine"

lemma sample_load: "per_core_load 0 4 = Inr (Fin 0)"
  by (simp add: per_core_load_def flt_max_def f32_round_def)

lemma sample_discovery_reply:
  "\<exists>m. discovery_reply sample_engine_env (itsServer sample_backend) n = Inr m \<and>
     messagetype m = SERVICE_DISCOVERY_REPLY"
  by (simp add: discovery_reply_def sample_backend_def sample_engine_def engine_config_def sample_config_def
      get_optional_def numeric_cast_int32_def sample_load)

lemma sample_backend_fields [simp]:
  "isPaused now sample_backend = (False, sample_backend)" "postedReceives sample_backend = 0"
  "sentDatagrams sample_backend = []"
  by (simp_all add: isPaused_def sample_backend_def)

lemma sample_serialized: "messagetype m = SERVICE_DISCOVERY_REPLY \<Longrightarrow> SerializeToString sample_wire m = ''reply''"
  by (simp add: sample_wire_def)

lemma sample_running: "isShuttingDown sample_engine_env = (\<lambda>site. False)"
  by (simp add: fun_eq_iff)

theorem backend_answers_requests_witness:
  "\<exists>e' e''. handleBackendRead sample_net sample_wire sample_engine_env (''10.0.0.1'', 4000) (Received ''request'')
       sample_backend = Inr e' \<and>
     sentDatagrams e' = [((''10.0.0.1'', 4000), ''reply'')] \<and>
     \<not> fst (ParseFromString sample_wire ''garbage'') \<and>
     handleBackendRead sample_net sample_wire sample_engine_env (''10.0.0.1'', 4000) (Received ''garbage'')
       sample_backend = Inr e'' \<and>
     sentDatagrams e'' = [((''10.0.0.1'', 4000), ''reply'')]"
proof -
  let ?r = "(''10.0.0.1'', 4000)"
  have parse: "snd (ParseFromString sample_wire ''request'') = discovery_request ''localhost'' 1"
    "ParseFromString sample_wire ''garbage'' = (False, default_message)"
    by (simp_all add: sample_wire_def received_def)
  have m: "\<exists>m. discovery_reply sample_engine_env (itsServer sample_backend) n = Inr m" for n
    using sample_discovery_reply by blast
  have reply: "SerializeToString sample_wire m = ''reply''"
    if "discovery_reply sample_engine_env (itsServer sample_backend) n = Inr m" for n m
    using that sample_discovery_reply [of n] by (auto simp: sample_serialized)
  obtain e' where e': "handleBackendRead sample_net sample_wire sample_engine_env ?r (Received ''request'')
      sample_backend = Inr e'"
    using m [of 1] by (auto simp: handleBackendRead_running [OF sample_running] parse discovery_request_def)
  have due: "reply_due sample_net sample_wire sample_engine_env ?r ''request'' sample_backend"
    by (simp add: reply_due_def parse discovery_request_def)
  obtain e'' where e'': "handleBackendRead sample_net sample_wire sample_engine_env ?r (Received ''garbage'')
      sample_backend = Inr e''"
    using m [of 0] by (auto simp: handleBackendRead_running [OF sample_running] parse default_message_def)
  have "sentDatagrams e' = [(?r, ''reply'')]"
    using backend_answers_requests [OF e' sample_running] due by (auto simp: reply)
  moreover have "sentDatagrams e'' = [(?r, ''reply'')]"
    using backend_answers_requests [OF e'' sample_running] by (auto simp: parse reply)
  ultimately show ?thesis using e' e'' parse(2) by auto
qed

section \<open>The reply at the frontend\<close>

text \<open>
  Every URI in a reply of the round is listed at the frontend, under its own name and under
  the per-host name, and the pruning at the end of the round leaves it there. Of the
  encoding only this is needed: that decoding what was sent gives the message back.
\<close>

lemma reply_reaches_table:
  assumes "discovery_reply Eb cfg n = Inr m"
    and "snd (ParseFromString W b) = m"
    and "handleFrontendRead P W Ef (Received b) e = Inr e'"
    and "\<not> isShuttingDown Ef InProcessReply" and "n = uint (itsFrontendSequence e)"
    and "handler \<in> set (getURIMap Eb)"
    and "u = handler \<or> u = ''/'' @ itsHostname cfg @ handler"
  shows "\<exists>svc \<in> set (list_at (itsServices (close_round P E e')) u).
     service_key svc = (itsHostname cfg, uint (itsHttpPort cfg)) \<and> URI svc = handler"
proof -
  obtain port load throttle where casts: "numeric_cast_int32 (itsHttpPort cfg) = Inr port"
    "numeric_cast_int32 (itsThrottleLimit cfg) = Inr throttle"
    and m: "m = \<lparr>msg_name = itsHostname cfg, messagetype = SERVICE_DISCOVERY_REPLY, seqnum = n,
        host = Some \<lparr>host_ip = itsHttpAddress cfg, host_port = port, host_comment = itsComment cfg,
                     host_load = load, host_throttle = Some throttle\<rparr>,
        services_of = map (reply_service (isURIPrefix Eb)) (getURIMap Eb),
        infoQuery = map reply_query (getAdminRequestNames Eb)\<rparr>"
    using assms(1) by (auto simp: discovery_reply_def split: sum.splits)
  have port: "port = uint (itsHttpPort cfg)" and throttle: "0 \<le> throttle"
    using casts by (auto simp: numeric_cast_int32_def split: if_splits)
  have accepted: "reply_accepted Ef m" "throttle_of (the (host m)) = throttle"
    using assms(4,6) by (auto simp: m reply_accepted_def throttle_of_def)
  then have e': "itsServices e' = registered P Ef m (itsServices e)"
    "itsFrontendSequence e' = itsFrontendSequence e"
    using assms(3) throttle
    by (auto simp: handle_datagram assms(2) Let_def post_receive_def accepted)
  let ?svc = "announced_service m (reply_server m (the (host m)) (of_int (throttle_of (the (host m)))))
      (reply_service (isURIPrefix Eb) handler)"
  have "?svc \<in> set (list_at (itsServices e') u)"
    using assms(6,7) unfolding e' registered_def Let_def list_at_add_info_queries list_at_add_services
    by (auto simp: m announcements_def direct_uri_def reply_service_def)
  moreover have "SequenceNumber ?svc = uint (itsFrontendSequence e')"
    using assms(5) e'(2) by (simp add: announced_service_def m)
  ultimately have "?svc \<in> set (list_at (itsServices (close_round P E e')) u)"
    by (simp add: list_at_prune)
  moreover have "service_key ?svc = (itsHostname cfg, uint (itsHttpPort cfg)) \<and> URI ?svc = handler"
    by (simp add: announced_service_def reply_server_def service_key_def reply_service_def m port)
  ultimately show ?thesis by blast
qed

section \<open>Silence\<close>

fun deadlines :: "'g platform \<Rightarrow> wire \<Rightarrow> (net \<times> 'g engine_env) list \<Rightarrow> 'g engine \<Rightarrow> exn + 'g engine" where
  "deadlines P W [] e = Inr e"
| "deadlines P W ((N, E) # rounds) e =
     (case handleDeadlineTimer P N W E False e of
        Inl x \<Rightarrow> Inl x
      | Inr e' \<Rightarrow> deadlines P W rounds e')"

lemma pruning_due_skipped:
  assumes "itsReceivedResponses e = 0" and "unat (itsMaxSkippedCycles e) < 2 ^ 32 - 1"
    and "unat (itsSkippedCycles e) \<le> unat (itsMaxSkippedCycles e)"
  shows "pruning_due e \<longleftrightarrow> unat (itsSkippedCycles e) = unat (itsMaxSkippedCycles e)"
proof -
  have "unat (itsSkippedCycles e + 1) = unat (itsSkippedCycles e) + 1"
    using assms(2,3) by (simp add: unat_word_ariths)
  with assms(1,3) show ?thesis by (auto simp: pruning_due_def word_less_nat_alt)
qed

lemma silent_step:
  assumes "handleDeadlineTimer P N W E False e = Inr e1" and "itsReceivedResponses e = 0"
    and "unat (itsSkippedCycles e) < unat (itsMaxSkippedCycles e)"
  shows "itsServices e1 = itsServices e \<and> itsMaxSkippedCycles e1 = itsMaxSkippedCycles e \<and>
     itsReceivedResponses e1 = 0 \<and> unat (itsSkippedCycles e1) = unat (itsSkippedCycles e) + 1"
proof -
  have "unat (itsMaxSkippedCycles e) < 2 ^ 32" using unsigned_less [of "itsMaxSkippedCycles e", where 'a = nat] by simp
  then have k: "unat (itsSkippedCycles e + 1) = unat (itsSkippedCycles e) + 1"
    using assms(3) by (simp add: unat_word_ariths)
  with assms(2,3) have "\<not> pruning_due e" by (simp add: pruning_due_def word_less_nat_alt)
  with assms(1) k show ?thesis
    by (auto simp: deadline_closes_round post_receive_def elim!: startServiceDiscovery_cases split: if_splits)
qed

text \<open>
  C28. When no backend answers, the table stays as it is for as many rounds as
  \<open>heartbeat.max_skipped_cycles\<close> allows, and the deadline after them is the one that prunes.
\<close>

theorem silent_rounds_keep_table:
  assumes "deadlines P W rounds e = Inr e'" and "itsReceivedResponses e = 0"
    and "unat (itsSkippedCycles e) + length rounds \<le> unat (itsMaxSkippedCycles e)"
    and "unat (itsMaxSkippedCycles e) < 2 ^ 32 - 1"
  shows "itsServices e' = itsServices e \<and>
     pruning_due e' = (unat (itsSkippedCycles e) + length rounds = unat (itsMaxSkippedCycles e))"
proof -
  have "itsServices e' = itsServices e \<and> itsMaxSkippedCycles e' = itsMaxSkippedCycles e \<and>
      itsReceivedResponses e' = 0 \<and> unat (itsSkippedCycles e') = unat (itsSkippedCycles e) + length rounds"
    using assms(1-3)
  proof (induction P W rounds e rule: deadlines.induct)
    case (2 P W N E rounds e)
    obtain e1 where e1: "handleDeadlineTimer P N W E False e = Inr e1" "deadlines P W rounds e1 = Inr e'"
      using "2.prems"(1) by (auto split: sum.splits)
    note step = silent_step [OF e1(1) "2.prems"(2)]
    with "2.prems"(3) "2.IH" [OF e1(1) e1(2)] show ?case by simp
  qed simp
  with assms(3,4) show ?thesis by (simp add: pruning_due_skipped)
qed

theorem silent_rounds_keep_table_witness:
  "\<exists>e'. deadlines reference_platform sample_wire [(sample_net, sample_engine_env), (sample_net, sample_engine_env)]
     sample_frontend = Inr e' \<and> itsServices e' = itsServices sample_frontend \<and> pruning_due e'"
proof -
  let ?rounds = "[(sample_net, sample_engine_env), (sample_net, sample_engine_env)]"
  have "itsBackendUdpListeners sample_frontend = [''10.0.0.2:31337'']"
    by (simp add: sample_frontend_def sample_new_engine sample_launch)
  then obtain e1 e' where "handleDeadlineTimer reference_platform sample_net sample_wire sample_engine_env
      False sample_frontend = Inr e1"
    "handleDeadlineTimer reference_platform sample_net sample_wire sample_engine_env False e1 = Inr e'" using sample_deadline by meson
  then have run: "deadlines reference_platform sample_wire ?rounds sample_frontend = Inr e'" by simp
  from silent_rounds_keep_table [OF run] run show ?thesis by simp
qed

section \<open>Pause\<close>

lemma queries_running:
  "\<not> itsPaused e \<Longrightarrow> fold (\<lambda>t e. snd (isPaused t e)) ts e = e"
  by (induction ts) (simp_all add: isPaused_def)

lemma queries_forever:
  "itsPauseDeadLine e = None \<Longrightarrow> fold (\<lambda>t e. snd (isPaused t e)) ts e = e"
  by (induction ts) (simp_all add: isPaused_def)

lemma queries_until:
  assumes "itsPaused e" and "itsPauseDeadLine e = Some deadline" and "list_all (\<lambda>t. t \<le> now) ts"
  shows "fold (\<lambda>t e. snd (isPaused t e)) ts e = e \<or>
     \<not> itsPaused (fold (\<lambda>t e. snd (isPaused t e)) ts e) \<and> deadline \<le> now"
  using assms(3)
proof (induction ts)
  case (Cons t ts)
  show ?case
  proof (cases "t < deadline")
    case True
    with Cons assms(1,2) show ?thesis by (simp add: isPaused_def)
  next
    case False
    then have "\<not> itsPaused (snd (isPaused t e))" using assms(1,2) by (simp add: isPaused_def)
    with False Cons.prems queries_running [of "snd (isPaused t e)" ts] show ?thesis by simp
  qed
qed simp

text \<open>
  A pause with a deadline lasts until the deadline and no longer, however often it was
  asked about before; one without a deadline lasts, and \<open>setContinue\<close> ends either at once.
\<close>

lemma pause_lasts:
  assumes "list_all (\<lambda>t. t \<le> now) earlier"
  shows "fst (isPaused now (fold (\<lambda>t e. snd (isPaused t e)) earlier (setPauseUntil deadline e))) = (now < deadline) \<and>
     fst (isPaused now (fold (\<lambda>t e. snd (isPaused t e)) earlier (setPause e))) = True \<and>
     fst (isPaused now (fold (\<lambda>t e. snd (isPaused t e)) earlier (setContinue e))) = False"
  using assms queries_until [of "setPauseUntil deadline e" deadline now earlier]
    queries_forever [of "setPause e" earlier] queries_running [of "setContinue e" earlier]
  by (auto simp: setPauseUntil_def setPause_def setContinue_def isPaused_def split: if_splits)

section \<open>Launch\<close>

lemma send_requests_Inl: "send_requests N b ls = Inl x \<Longrightarrow> \<exists>p. x = StoiError p"
proof (induction ls)
  case (Cons st ls)
  then show ?case
    by (cases "send_requests N b ls") (auto split: option.splits if_splits)
qed simp

text \<open>
  Launching a frontend is refused for its forwarding mode exactly if the mode is none of
  the seven names.
\<close>

lemma launch_refuses_unknown_mode:
  "(\<exists>m. launch N W E ModeFrontend e = Inl (UnknownForwardingMode m)) \<longleftrightarrow>
     itsForwardingMode e \<notin> {''inverseload'', ''random'', ''doublerandom'', ''inverseconnections'',
       ''leastconnections'', ''exponentialconnections'', ''sticky''}"
proof -
  have start: "startServiceDiscovery N W E e' \<noteq> Inl (UnknownForwardingMode m)" for e' m
    using send_requests_Inl by (fastforce simp: startServiceDiscovery_def Let_def split: sum.splits)
  have mode: "itsForwardingMode e \<notin> {''inverseload'', ''random'', ''doublerandom'', ''inverseconnections'',
       ''leastconnections'', ''exponentialconnections'', ''sticky''} \<longleftrightarrow>
      setForwarding (itsForwardingMode e) (itsBalanceFactor e) (itsStickyCookie e) (itsServices e) =
        Inl (UnknownForwardingMode (itsForwardingMode e))"
    by (simp add: setForwarding_def forwarding_mode_of_def)
  have known: "\<exists>s. setForwarding (itsForwardingMode e) (itsBalanceFactor e) (itsStickyCookie e) (itsServices e) = Inr s"
    if "setForwarding (itsForwardingMode e) (itsBalanceFactor e) (itsStickyCookie e) (itsServices e) \<noteq>
        Inl (UnknownForwardingMode (itsForwardingMode e))"
    using that by (auto simp: setForwarding_def forwarding_mode_of_def split: if_splits)
  show ?thesis
    unfolding mode using start known
    by (fastforce simp: launch_def setReactor_def frontendMode_def Let_def split: sum.splits option.splits if_splits)
qed

end
