(* ===== verification/Backend_Node.thy ===== *)
theory Backend_Node
  imports Exchange
begin

text \<open>
  The backend as a state machine (\<open>backend_step\<close>), with its invariant; the types of the
  messages it sends; and the end of both loops when the server shuts down.
\<close>

section \<open>Messages of the schema\<close>

text \<open>The integers of BroadcastMessage.proto are \<open>int32\<close>.\<close>

definition int32 :: "int set" where
  "int32 = {n. - (2 ^ 31) \<le> n \<and> n < 2 ^ 31}"

definition host_typed :: "host_info \<Rightarrow> bool" where
  "host_typed h \<longleftrightarrow> host_port h \<in> int32 \<and> throttle_of h \<in> int32"

definition well_typed :: "broadcast_message \<Rightarrow> bool" where
  "well_typed m \<longleftrightarrow>
     seqnum m \<in> int32 \<and> (case host m of None \<Rightarrow> True | Some h \<Rightarrow> host_typed h) \<and>
     (\<forall>service \<in> set (services_of m). lastupdate service \<in> int32) \<and>
     (\<forall>q \<in> set (infoQuery m). query_lastupdate q \<in> int32)"

lemma zero_int32 [simp]: "0 \<in> int32"
  by (simp add: int32_def)

lemma numeric_cast_int32_typed:
  "numeric_cast_int32 n = Inr k \<Longrightarrow> k \<in> int32 \<and> 0 \<le> k \<and> k = uint n"
  by (auto simp: numeric_cast_int32_def int32_def split: if_splits intro: order.trans [of _ 0])

text \<open>A reply of the code, as opposed to any message of that type.\<close>

lemma discovery_reply_fields:
  assumes "discovery_reply E cfg n = Inr m"
  shows "msg_name m = itsHostname cfg" "messagetype m = SERVICE_DISCOVERY_REPLY" "seqnum m = n"
    "services_of m = map (reply_service (isURIPrefix E)) (getURIMap E)"
    "infoQuery m = map reply_query (getAdminRequestNames E)"
    "\<exists>h. host m = Some h \<and> host_port h = uint (itsHttpPort cfg) \<and> host_port h \<in> int32 \<and>
         throttle_of h = uint (itsThrottleLimit cfg) \<and> throttle_of h \<in> int32"
  using assms by (auto simp: discovery_reply_def throttle_of_def dest: numeric_cast_int32_typed split: sum.splits)

lemma discovery_reply_typed:
  assumes "discovery_reply E cfg n = Inr m" and "n \<in> int32"
  shows "well_typed m"
  using discovery_reply_fields [OF assms(1)] assms(2)
  by (auto simp: well_typed_def host_typed_def reply_service_def reply_query_def)

text \<open>
  C16. A reply a backend forms for a request of the schema is itself a message of the schema,
  with a throttle limit that is not negative, so no frontend raises an exception over it.
\<close>

theorem replies_well_typed:
  assumes "discovery_reply E cfg n = Inr m" and "n \<in> int32"
  shows "well_typed m \<and> processReply P E' m s \<noteq> Inl x"
proof -
  obtain h where "host m = Some h" "throttle_of h = uint (itsThrottleLimit cfg)"
    using discovery_reply_fields(6) [OF assms(1)] by blast
  then have "\<not> throttle_of (the (host m)) < 0" by simp
  then show ?thesis using discovery_reply_typed [OF assms] by (simp add: processReply_outcome)
qed

theorem replies_well_typed_witness:
  "\<exists>m. discovery_reply sample_engine_env (itsServer sample_engine) 1 = Inr m \<and> well_typed m"
proof -
  obtain m where m: "discovery_reply sample_engine_env (itsServer sample_engine) 1 = Inr m"
    by (simp add: discovery_reply_def sample_engine_def engine_config_def sample_config_def get_optional_def
        numeric_cast_int32_def per_core_load_def flt_max_def f32_round_def)
  have "1 \<in> int32" by (simp add: int32_def)
  with replies_well_typed [OF m] m show ?thesis by blast
qed

section \<open>The state machine of the backend\<close>

text \<open>What one completed receive does, whatever came in and whatever was read.\<close>

lemma handleBackendRead_outcome:
  assumes "handleBackendRead N W E r c e = Inr e'"
  shows "\<exists>e1 again sent. e1 \<in> {e, snd (isPaused (universal_time E) e)} \<and>
     e' = e1\<lparr>postedReceives := postedReceives e + (if again then 1 else 0),
             sentDatagrams := sentDatagrams e @ sent\<rparr> \<and>
     (sent = [] \<or> (\<exists>b m. c = Received b \<and> \<not> isShuttingDown E AtBackendRead \<and> sent = [(r, SerializeToString W m)] \<and>
        discovery_reply E (itsServer e) (seqnum (snd (ParseFromString W b))) = Inr m)) \<and>
     (isShuttingDown E AtBackendRead \<longrightarrow> \<not> again)"
proof -
  have same: "e = e\<lparr>postedReceives := postedReceives e + 0, sentDatagrams := sentDatagrams e @ []\<rparr>" by simp
  have again: "startListening e = e\<lparr>postedReceives := postedReceives e + 1, sentDatagrams := sentDatagrams e @ []\<rparr>"
    by (simp add: startListening_def post_receive_def)
  consider "isShuttingDown E AtBackendRead" | "\<not> isShuttingDown E AtBackendRead" "c \<in> {Aborted, Failed}"
    | b where "\<not> isShuttingDown E AtBackendRead" "c = Received b" by (cases c) auto
  then show ?thesis
  proof cases
    case 1
    with assms have "e' = e" by (simp add: handleBackendRead_def)
    with same show ?thesis by (intro exI [of _ e] exI [of _ False] exI [of _ "[]"]) auto
  next
    case 2
    with assms have "e' = startListening e" by (auto simp: handleBackendRead_def)
    with again 2 show ?thesis by (intro exI [of _ e] exI [of _ True] exI [of _ "[]"]) auto
  next
    case 3
    obtain paused e1 where p: "isPaused (universal_time E) e = (paused, e1)" by fastforce
    have e1: "sentDatagrams e1 = sentDatagrams e" "itsServer e1 = itsServer e" "postedReceives e1 = postedReceives e"
      using isPaused_fields [of "universal_time E" e] by (simp_all add: p)
    have unsent: "e1\<lparr>postedReceives := n, sentDatagrams := sentDatagrams e\<rparr> = e1\<lparr>postedReceives := n\<rparr>"
      "e1\<lparr>postedReceives := postedReceives e\<rparr> = e1" for n
      using e1(1,3) by (cases e1; simp)+
    note step = assms [unfolded handleBackendRead_def]
    let ?res = "processRequest W E (itsServer e) (snd (ParseFromString W b))"
    consider "paused \<or> isLoadHigh E" | "\<not> (paused \<or> isLoadHigh E)" "isShuttingDown E AfterParse"
      | "\<not> (paused \<or> isLoadHigh E)" "\<not> isShuttingDown E AfterParse" by blast
    then show ?thesis
    proof cases
      case 1
      with step 3 p e1 have "e' = post_receive e1"
        by (cases paused) (simp_all add: startListening_def)
      then show ?thesis using 3 p e1
        by (intro exI [of _ e1] exI [of _ True] exI [of _ "[]"]) (simp add: post_receive_def unsent)
    next
      case 2
      with step 3 p e1 have "e' = e1" by simp
      then show ?thesis using 3 p e1
        by (intro exI [of _ e1] exI [of _ False] exI [of _ "[]"]) (simp add: unsent)
    next
      case listening: 3
      with step 3 p e1 obtain buf where buf: "?res = Inr buf" by (cases ?res) auto
      have reply: "buf = [] \<or> (\<exists>m. buf = SerializeToString W m \<and>
          discovery_reply E (itsServer e) (seqnum (snd (ParseFromString W b))) = Inr m)"
        using buf by (auto simp: processRequest_def sendDiscoveryReply_def
            split: if_splits message_type.splits sum.splits)
      let ?sent = "if buf \<noteq> [] \<and> \<not> sendError N r then [(r, buf)] else []"
      have "e' = e1\<lparr>postedReceives := postedReceives e + 1, sentDatagrams := sentDatagrams e @ ?sent\<rparr>"
        using step 3 p e1 listening buf
        by (cases "buf \<noteq> [] \<and> \<not> sendError N r") (auto simp: startListening_def post_receive_def unsent)
      moreover have "?sent = [] \<or> (\<exists>b m. c = Received b \<and> \<not> isShuttingDown E AtBackendRead \<and>
          ?sent = [(r, SerializeToString W m)] \<and>
          discovery_reply E (itsServer e) (seqnum (snd (ParseFromString W b))) = Inr m)"
        using reply 3 by auto
      ultimately show ?thesis using 3 p
        by (intro exI [of _ e1] exI [of _ True] exI [of _ ?sent]) simp
    qed
  qed
qed

text \<open>
  From any state the backend moves by the arrival of a datagram or an error, by the handler
  of a completed receive, or by the pause commands. \<open>reads\<close> are the readings it may have.
\<close>

inductive backend_step ::
  "wire \<Rightarrow> ('g engine_env \<Rightarrow> bool) \<Rightarrow> 'g engine \<Rightarrow> 'g engine \<Rightarrow> bool"
  for W :: wire and reads :: "'g engine_env \<Rightarrow> bool" where
  backend_datagram: "postedReceives e > 0 \<Longrightarrow> backend_step W reads e (receive_datagram d e)"
| backend_error: "postedReceives e > 0 \<Longrightarrow> backend_step W reads e (receive_fails e)"
| backend_read:
    "completedReceives e = q # cs \<Longrightarrow> reads E \<Longrightarrow>
       handleBackendRead N W E r (completion_of q (itsReceiveBuffer e)) (e\<lparr>completedReceives := cs\<rparr>) = Inr e' \<Longrightarrow>
       backend_step W reads e e'"
| backend_pause: "backend_step W reads e (setPause e)"
| backend_pause_until: "backend_step W reads e (setPauseUntil deadline e)"
| backend_continue: "backend_step W reads e (setContinue e)"
| backend_query: "backend_step W reads e (snd (isPaused now e))"

inductive backend_reachable :: "wire \<Rightarrow> ('g engine_env \<Rightarrow> bool) \<Rightarrow> 'g engine \<Rightarrow> bool"
  for W :: wire and reads :: "'g engine_env \<Rightarrow> bool" where
  backend_launched:
    "new_engine N C = Inr e \<Longrightarrow> launch N' W E ModeBackend e = Inr e' \<Longrightarrow> backend_reachable W reads e'"
| backend_moved:
    "backend_reachable W reads e \<Longrightarrow> backend_step W reads e e' \<Longrightarrow> backend_reachable W reads e'"

text \<open>What the backend has sent: replies of its own, formed from its readings, to whoever asked.\<close>

definition own_reply :: "wire \<Rightarrow> ('g engine_env \<Rightarrow> bool) \<Rightarrow> server_config \<Rightarrow> string \<Rightarrow> bool" where
  "own_reply W reads cfg b \<longleftrightarrow>
     (\<exists>E n m. reads E \<and> discovery_reply E cfg n = Inr m \<and> b = SerializeToString W m)"

lemma own_replyI:
  "reads E \<Longrightarrow> discovery_reply E cfg n = Inr m \<Longrightarrow> own_reply W reads cfg (SerializeToString W m)"
  unfolding own_reply_def by blast

definition backend_ok :: "wire \<Rightarrow> ('g engine_env \<Rightarrow> bool) \<Rightarrow> 'g engine \<Rightarrow> bool" where
  "backend_ok W reads e \<longleftrightarrow>
     itsMode e = ModeBackend \<and> postedReceives e + length (completedReceives e) \<le> 1 \<and> \<not> timerArmed e \<and>
     itsServices e = empty_services \<and> (itsPauseDeadLine e \<noteq> None \<longrightarrow> itsPaused e) \<and>
     (\<forall>b \<in> snd ` set (sentDatagrams e). own_reply W reads (itsServer e) b)"

lemma backend_ok_query: "backend_ok W reads e \<Longrightarrow> backend_ok W reads (snd (isPaused now e))"
  by (auto simp: backend_ok_def isPaused_def split: option.split)

lemma backend_ok_read:
  assumes "backend_ok W reads e" and "completedReceives e = q # cs" and "reads E"
    and "handleBackendRead N W E r c (e\<lparr>completedReceives := cs\<rparr>) = Inr e'"
  shows "backend_ok W reads e'"
proof -
  let ?e = "e\<lparr>completedReceives := cs\<rparr>"
  obtain e1 again sent where o: "e1 \<in> {?e, snd (isPaused (universal_time E) ?e)}"
    "e' = e1\<lparr>postedReceives := postedReceives ?e + (if again then 1 else 0),
             sentDatagrams := sentDatagrams ?e @ sent\<rparr>"
    "sent = [] \<or> (\<exists>b m. c = Received b \<and> \<not> isShuttingDown E AtBackendRead \<and> sent = [(r, SerializeToString W m)] \<and>
        discovery_reply E (itsServer ?e) (seqnum (snd (ParseFromString W b))) = Inr m)"
    using handleBackendRead_outcome [OF assms(4)] by blast
  have idle: "cs = []" "postedReceives e = 0" using assms(1,2) by (auto simp: backend_ok_def)
  have "backend_ok W reads ?e" using assms(1,2) by (simp add: backend_ok_def)
  with o(1) backend_ok_query have e1: "backend_ok W reads e1" by auto
  have same: "sentDatagrams e1 = sentDatagrams e" "itsServer e1 = itsServer e" "completedReceives e1 = []"
    using o(1) idle by auto
  have "\<forall>b \<in> snd ` set sent. own_reply W reads (itsServer e) b"
    using o(3) assms(3) own_replyI [of reads E "itsServer e"] by fastforce
  with e1 same idle show ?thesis
    unfolding o(2) by (auto simp: backend_ok_def)
qed

lemma backend_ok_paused:
  "backend_ok W reads e \<Longrightarrow> t = None \<or> p \<Longrightarrow> backend_ok W reads (e\<lparr>itsPaused := p, itsPauseDeadLine := t\<rparr>)"
  by (auto simp: backend_ok_def)

lemma backend_ok_step: "backend_step W reads e e' \<Longrightarrow> backend_ok W reads e \<Longrightarrow> backend_ok W reads e'"
proof (induction rule: backend_step.induct)
  case (backend_read e q cs E N r e')
  then show ?case using backend_ok_read by blast
next
  case (backend_query e now)
  then show ?case by (rule backend_ok_query)
next
  case (backend_datagram e d)
  then have "completedReceives e = []" by (cases "completedReceives e") (auto simp: backend_ok_def)
  with backend_datagram show ?case by (simp add: backend_ok_def receive_datagram_def)
next
  case (backend_error e)
  then have "completedReceives e = []" by (cases "completedReceives e") (auto simp: backend_ok_def)
  with backend_error show ?case by (simp add: backend_ok_def receive_fails_def)
qed (simp_all add: setPause_def setPauseUntil_def setContinue_def backend_ok_paused)

lemma backend_ok_launched:
  assumes "new_engine N C = Inr e" and "launch N' W E ModeBackend e = Inr e'"
  shows "backend_ok W reads e'"
  using assms by (auto simp: new_engine_def engine_config_def launch_def backendMode_def backend_ok_def
      setReactor_def startListening_def post_receive_def Let_def split: option.splits)

lemma backend_reachable_ok: "backend_reachable W reads e \<Longrightarrow> backend_ok W reads e"
  by (induction rule: backend_reachable.induct) (auto intro: backend_ok_launched backend_ok_step)

text \<open>
  C13. In every state a backend can get into, whatever it receives and however it is paused:
  at most one receive is posted or waits to be handled (no two share its buffer), its table
  stays empty and its timer off, a pause deadline is only kept while it is paused, and all
  it ever sent are replies formed from its readings, under its own name, port and throttle
  limit.
\<close>

theorem backend_invariant:
  assumes "backend_reachable W reads e"
  shows "postedReceives e + length (completedReceives e) \<le> 1 \<and> \<not> timerArmed e \<and>
     itsServices e = empty_services \<and> (itsPauseDeadLine e = None \<or> itsPaused e) \<and>
     {b \<in> snd ` set (sentDatagrams e). \<not> own_reply W reads (itsServer e) b} = {}"
  using backend_reachable_ok [OF assms] by (auto simp: backend_ok_def)

text \<open>A backend that has been asked once.\<close>

definition sample_listening :: "nat engine" where
  "sample_listening =
     sample_engine\<lparr>itsBackendSocket := (''127.0.0.1'', itsUdpListenerPort sample_engine), itsReactor := True,
       servicesReactor := True, itsMode := ModeBackend,
       boundTo := Some (''127.0.0.1'', itsUdpListenerPort sample_engine), postedReceives := 1, ioThread := True\<rparr>"

lemma sample_listening_launched:
  "launch sample_net sample_wire sample_engine_env ModeBackend
     (sample_engine\<lparr>itsBackendSocket := (''127.0.0.1'', itsUdpListenerPort sample_engine)\<rparr>) = Inr sample_listening"
  by (simp add: launch_def setReactor_def backendMode_def startListening_def post_receive_def sample_listening_def Let_def)

lemma sample_listening_reachable: "backend_reachable W reads sample_listening"
  using backend_launched [OF sample_new_engine] sample_listening_launched
  by (simp add: launch_def)

lemma sample_listening_fields [simp]:
  "itsServer sample_listening = itsServer sample_backend" "postedReceives sample_listening = 1"
  "completedReceives sample_listening = []" "sentDatagrams sample_listening = []"
  by (simp_all add: sample_listening_def sample_backend_def)

definition sample_asked :: "string \<Rightarrow> endpoint \<Rightarrow> string \<Rightarrow> nat engine" where
  "sample_asked d r reply =
     post_receive ((receive_datagram d sample_listening)\<lparr>completedReceives := [], sentDatagrams := [(r, reply)]\<rparr>)"

lemma sample_asked_fields [simp]:
  "itsServer (sample_asked d r reply) = itsServer sample_backend" "sentDatagrams (sample_asked d r reply) = [(r, reply)]"
  by (simp_all add: sample_asked_def post_receive_def receive_datagram_def)

lemma sample_asked_steps:
  assumes "discovery_reply sample_engine_env (itsServer sample_backend)
       (seqnum (snd (ParseFromString W (received d)))) = Inr m"
    and "messagetype (snd (ParseFromString W (received d))) = SERVICE_DISCOVERY_REQUEST"
    and "SerializeToString W m \<noteq> []" and "reads sample_engine_env"
  shows "(backend_step W reads)\<^sup>*\<^sup>* sample_listening (sample_asked d r (SerializeToString W m))"
proof -
  let ?e = "receive_datagram d sample_listening"
  have "backend_step W reads sample_listening ?e" by (rule backend_datagram) simp
  moreover have "backend_step W reads ?e (sample_asked d r (SerializeToString W m))"
  proof (rule backend_read)
    show "completedReceives ?e = Transferred (length (received d)) # []"
      by (simp add: receive_datagram_def)
    have "completion_of (Transferred (length (received d))) (itsReceiveBuffer ?e) = Received (received d)"
      by (simp add: received_content)
    moreover have "isPaused now (?e\<lparr>completedReceives := []\<rparr>) = (False, ?e\<lparr>completedReceives := []\<rparr>)" for now
      by (simp add: isPaused_def receive_datagram_def sample_listening_def)
    moreover have "itsServer ?e = itsServer sample_backend" "sentDatagrams ?e = []"
      by (simp_all add: receive_datagram_def)
    ultimately show "handleBackendRead sample_net W sample_engine_env r
        (completion_of (Transferred (length (received d))) (itsReceiveBuffer ?e)) (?e\<lparr>completedReceives := []\<rparr>) =
        Inr (sample_asked d r (SerializeToString W m))"
      using assms(1-3) by (simp add: handleBackendRead_running [OF sample_running] sample_asked_def)
  qed (rule assms(4))
  ultimately show ?thesis by (meson converse_rtranclp_into_rtranclp r_into_rtranclp)
qed

lemma backend_reachable_steps:
  "(backend_step W reads)\<^sup>*\<^sup>* e e' \<Longrightarrow> backend_reachable W reads e \<Longrightarrow> backend_reachable W reads e'"
  by (induction rule: rtranclp_induct) (auto intro: backend_moved)

theorem backend_invariant_witness:
  "\<exists>e :: nat engine. backend_reachable sample_wire (\<lambda>E. True) e \<and> map snd (sentDatagrams e) = [''reply''] \<and>
     own_reply sample_wire (\<lambda>E :: nat engine_env. True) (itsServer e) ''reply''"
proof -
  let ?r = "(''10.0.0.1'', 4000)" and ?W = sample_wire and ?reads = "\<lambda>E :: nat engine_env. True"
  let ?e = "sample_asked ''request'' ?r ''reply''"
  have req: "snd (ParseFromString ?W (received ''request'')) = discovery_request ''localhost'' 1"
    by (simp add: sample_wire_def received_def)
  obtain m where m: "discovery_reply sample_engine_env (itsServer sample_backend) 1 = Inr m"
    "messagetype m = SERVICE_DISCOVERY_REPLY" using sample_discovery_reply by blast
  have "(backend_step ?W ?reads)\<^sup>*\<^sup>* sample_listening ?e"
    using sample_asked_steps [of ?W "''request''" m ?reads ?r] m
    by (simp add: req discovery_request_def sample_serialized)
  from backend_reachable_steps [OF this sample_listening_reachable] have reach: "backend_reachable ?W ?reads ?e" .
  from backend_invariant [OF reach] have "own_reply ?W ?reads (itsServer ?e) ''reply''" by auto
  with reach show ?thesis by (intro exI [of _ ?e]) simp
qed

section \<open>Shutdown\<close>

text \<open>
  Once the server shuts down, only the completions that are still pending run. \<open>frontend_io k\<close>
  is a run of the frontend with \<open>k\<close> steps of the io thread and the reactor in it, whatever
  they read and whatever the other threads do to the table in between.
\<close>

inductive frontend_io ::
  "'g platform \<Rightarrow> wire \<Rightarrow> nat \<Rightarrow> 'g frontend \<Rightarrow> 'g frontend \<Rightarrow> bool"
  for P :: "'g platform" and W :: wire where
  io_done: "frontend_io P W 0 x x"
| io_step:
    "frontend_io P W k x y \<Longrightarrow> frontend_step P W (\<lambda>e d. True) (\<lambda>e m. True) (\<lambda>op. False) y z \<Longrightarrow> frontend_io P W (Suc k) x z"
| io_table:
    "frontend_io P W k x (e, t) \<Longrightarrow> table_exec P op (itsServices e) = Some s \<Longrightarrow>
       frontend_io P W k x (e\<lparr>itsServices := s\<rparr>, t)"

definition drained :: "'g frontend \<Rightarrow> bool" where
  "drained x \<longleftrightarrow> snd x = Waiting \<and> \<not> timerArmed (fst x) \<and> postedReceives (fst x) = 0 \<and>
     set (completedReceives (fst x)) \<subseteq> {Cancelled}"

lemma drained_step:
  assumes "frontend_step P W arrives accept (\<lambda>op. False) x y" and "drained x"
  shows "drained y \<and> length (completedReceives (fst x)) = Suc (length (completedReceives (fst y))) \<and>
     sentDatagrams (fst y) = sentDatagrams (fst x)"
  using assms
proof cases
  case (other_completion e q cs c E e')
  with assms(2) have "c = Aborted" by (simp add: drained_def)
  with other_completion other_completion_outcome [OF other_completion(6,5)] assms(2) show ?thesis
    by (simp add: drained_def)
qed (auto simp: drained_def)

lemma frontend_io_drains:
  assumes "frontend_io P W k x y" and "drained x"
  shows "drained y \<and> k + length (completedReceives (fst y)) = length (completedReceives (fst x)) \<and>
     sentDatagrams (fst y) = sentDatagrams (fst x)"
  using assms
proof (induction rule: frontend_io.induct)
  case (io_step k x y z)
  with drained_step [OF io_step.hyps(2)] show ?case by simp
qed (simp_all add: drained_def)

text \<open>
  C14. The heartbeat of a frontend ends: when it wakes up while the server shuts down, and no
  receive has completed that was not cancelled, exactly the handlers of the cancelled
  receives still run, one by one; then no timer and no receive is pending, no handler can
  run any more, and no further request has gone out.
\<close>

theorem shutdown_drains_frontend:
  assumes "frontend_reachable P W arrives accept allowed (e, Asleep)"
    and "wake_up N W E e = Inr e1" and "isShuttingDown E AtDeadline"
    and "set (completedReceives e) \<subseteq> {Cancelled}" and "frontend_io P W k (e1, Waiting) (e2, t)"
  shows "k + length (completedReceives e2) = length (completedReceives e) \<and> t = Waiting \<and>
     \<not> timerArmed e2 \<and> postedReceives e2 = 0 \<and> sentDatagrams e2 = sentDatagrams e \<and>
     (completedReceives e2 = [] \<or> (\<exists>y. frontend_io P W (Suc k) (e1, Waiting) y))"
proof -
  have "e1 = e" using assms(2,3) by (simp add: wake_up_def)
  moreover have "\<not> timerArmed e" "postedReceives e = 0"
    using frontend_reachable_ok [OF assms(1)] by simp_all
  ultimately have start: "drained (e1, Waiting)" "e1 = e" using assms(4) by (simp_all add: drained_def)
  note drains = frontend_io_drains [OF assms(5) start(1)]
  have "\<exists>y. frontend_io P W (Suc k) (e1, Waiting) y" if c: "completedReceives e2 = q # cs" for q cs
  proof -
    have "q = Cancelled" "t = Waiting" using drains c by (auto simp: drained_def)
    then have "frontend_step P W (\<lambda>e d. True) (\<lambda>e m. True) (\<lambda>op. False) (e2, t) (e2\<lparr>completedReceives := cs\<rparr>, Waiting)"
      using other_completion [OF c refl, of W E P] by (simp add: handleFrontendRead_def)
    with assms(5) show ?thesis by (blast intro: io_step)
  qed
  then have "completedReceives e2 = [] \<or> (\<exists>y. frontend_io P W (Suc k) (e1, Waiting) y)"
    by (cases "completedReceives e2") auto
  with drains start(2) show ?thesis by (simp add: drained_def)
qed

theorem shutdown_drains_frontend_witness:
  "\<exists>e2 t. frontend_io reference_platform sample_wire 1
       (close_round reference_platform sample_engine_env sample_frontend, Waiting) (e2, t) \<and>
     completedReceives e2 = [] \<and> \<not> timerArmed e2 \<and> postedReceives e2 = 0"
proof -
  let ?E = "sample_engine_env\<lparr>isShuttingDown := \<lambda>site. True\<rparr>" and ?P = reference_platform
  let ?e = "close_round ?P sample_engine_env sample_frontend" and ?any = "\<lambda>e d. True" and ?all = "\<lambda>e m. True" and ?ops = "\<lambda>op. False"
  have "frontend_step ?P sample_wire ?any ?all ?ops (sample_frontend, Waiting) (?e, Asleep)"
    by (rule deadline) simp
  then have reach: "frontend_reachable ?P sample_wire ?any ?all ?ops (?e, Asleep)"
    by (rule moved [OF sample_frontend_reachable])
  have wake: "wake_up sample_net sample_wire ?E ?e = Inr ?e" by (simp add: wake_up_def)
  have cancelled: "completedReceives ?e = [Cancelled]" by simp
  let ?e2 = "?e\<lparr>completedReceives := []\<rparr>"
  have "frontend_step ?P sample_wire ?any ?all ?ops (?e, Waiting) (?e2, Waiting)"
    by (rule other_completion [OF cancelled refl, where E = ?E]) (simp_all add: handleFrontendRead_def)
  then have io: "frontend_io ?P sample_wire 1 (?e, Waiting) (?e2, Waiting)"
    using io_step [OF io_done] by simp
  from shutdown_drains_frontend [OF reach wake _ _ io] cancelled io show ?thesis by auto
qed

text \<open>
  C15. A backend that finds the server shutting down when a receive completes does not listen
  again: no receive is completed after it, and nothing more is sent, whatever else happens.
\<close>

theorem shutdown_stops_backend:
  assumes "backend_reachable W reads e" and "completedReceives e = q # cs"
    and "handleBackendRead N W E r (completion_of q (itsReceiveBuffer e)) (e\<lparr>completedReceives := cs\<rparr>) = Inr e1"
    and "isShuttingDown E AtBackendRead" and "(backend_step W reads)\<^sup>*\<^sup>* e1 e2"
  shows "postedReceives e2 = 0 \<and> completedReceives e2 = [] \<and> sentDatagrams e2 = sentDatagrams e"
proof -
  have e1: "postedReceives e1 = 0 \<and> completedReceives e1 = [] \<and> sentDatagrams e1 = sentDatagrams e"
    using backend_reachable_ok [OF assms(1)] assms(2-4) by (auto simp: handleBackendRead_def backend_ok_def)
  from assms(5) show ?thesis
  proof induction
    case (step e2 e3)
    from step.hyps(2) step.IH show ?case
      by (cases rule: backend_step.cases) (simp_all add: setPause_def setPauseUntil_def setContinue_def)
  qed (use e1 in simp)
qed

theorem shutdown_stops_backend_witness:
  "\<exists>e1. handleBackendRead sample_net sample_wire (sample_engine_env\<lparr>isShuttingDown := \<lambda>site. True\<rparr>)
       (''10.0.0.1'', 4000) (Received ''request'')
       ((receive_datagram ''request'' sample_listening)\<lparr>completedReceives := []\<rparr>) = Inr e1 \<and>
     postedReceives (setContinue e1) = 0"
proof -
  let ?E = "sample_engine_env\<lparr>isShuttingDown := \<lambda>site. True\<rparr>" and ?r = "(''10.0.0.1'', 4000)"
  let ?e = "receive_datagram ''request'' sample_listening" and ?reads = "\<lambda>E :: nat engine_env. True"
  have c: "completedReceives ?e = [Transferred 7]" by (simp add: receive_datagram_def received_def)
  have content: "completion_of (Transferred 7) (itsReceiveBuffer ?e) = Received ''request''"
    by (simp add: receive_datagram_def received_def)
  obtain e1 where e1: "handleBackendRead sample_net sample_wire ?E ?r (Received ''request'')
      (?e\<lparr>completedReceives := []\<rparr>) = Inr e1" by (simp add: handleBackendRead_def)
  have reach: "backend_reachable sample_wire ?reads ?e"
    by (rule backend_moved [OF sample_listening_reachable backend_datagram]) simp
  have "(backend_step sample_wire ?reads)\<^sup>*\<^sup>* e1 (setContinue e1)" by (simp add: backend_continue r_into_rtranclp)
  from shutdown_stops_backend [OF reach c e1 [folded content] _ this] e1 show ?thesis by auto
qed

end
