(* ===== verification/Rounds.thy ===== *)
theory Rounds
  imports Exchange
begin

text \<open>
  What a round leaves in the table: exactly what was announced in it, whatever the table held
  before; and how old what it lists can be.
\<close>

section \<open>The datagrams of a round\<close>

fun hear :: "'g platform \<Rightarrow> wire \<Rightarrow> ('g engine_env \<times> string) list \<Rightarrow> 'g engine \<Rightarrow> exn + 'g engine" where
  "hear P W [] e = Inr e"
| "hear P W ((E, d) # rest) e =
     (case handleFrontendRead P W E (Received d) e of
        Inl x \<Rightarrow> Inl x
      | Inr e' \<Rightarrow> hear P W rest e')"

definition heard :: "wire \<Rightarrow> string \<Rightarrow> broadcast_message" where
  "heard W d = snd (ParseFromString W d)"

definition replies :: "wire \<Rightarrow> ('g engine_env \<times> string) list \<Rightarrow> broadcast_message list" where
  "replies W ds = map (\<lambda>(E, d). heard W d) (filter (\<lambda>(E, d). reply_accepted E (heard W d)) ds)"

definition announced_at :: "string \<Rightarrow> broadcast_message \<Rightarrow> backend_service list" where
  "announced_at u m =
     concat (map (announcements m (reply_server m (the (host m)) (of_int (throttle_of (the (host m))))) u)
       (services_of m))"

lemma list_at_registered_eq: "list_at (registered P E m s) u = list_at s u @ announced_at u m"
  by (simp add: registered_def Let_def list_at_add_services announced_at_def)


lemma hear_one:
  assumes "handleFrontendRead P W E (Received d) e = Inr e'"
  shows "e' = post_receive (if reply_accepted E (heard W d)
     then e\<lparr>itsServices := registered P E (heard W d) (itsServices e),
            itsReceivedResponses := itsReceivedResponses e + 1\<rparr> else e)"
  using assms by (auto simp: handle_datagram Let_def heard_def split: if_splits)

lemma hear_outcome:
  assumes "hear P W ds e = Inr e'"
  shows "list_at (itsServices e') u = list_at (itsServices e) u @ concat (map (announced_at u) (replies W ds)) \<and>
     itsReceivedResponses e' = itsReceivedResponses e + of_nat (length (replies W ds)) \<and>
     itsFrontendSequence e' = itsFrontendSequence e"
  using assms
proof (induction P W ds e rule: hear.induct)
  case (2 P W E d rest e)
  then obtain e1 where e1: "handleFrontendRead P W E (Received d) e = Inr e1" "hear P W rest e1 = Inr e'"
    by (auto split: sum.splits)
  from "2.IH" [OF e1(1) e1(2)] hear_one [OF e1(1)] show ?case
    by (cases "reply_accepted E (heard W d)") (simp_all add: replies_def list_at_registered_eq post_receive_def)
qed (simp add: replies_def)

text \<open>
  C34. What can end a frontend while it reads, and what else reading does. Of a sequence of
  datagrams, whatever they hold, exactly a complete reply with a negative throttle limit that
  is read while the server is not shutting down raises an exception, that of the numeric
  cast. If there is none, all are read, a receive is posted for each, each URI lists in
  addition what the accepted replies announced for it in their order, and exactly these replies
  are counted.
\<close>

theorem only_negative_throttle_fails:
  "(hear P W ds e = Inl x \<longleftrightarrow> x = NumericCast \<and>
      (\<exists>E d h. (E, d) \<in> set ds \<and> \<not> isShuttingDown E InProcessReply \<and>
         messagetype (heard W d) = SERVICE_DISCOVERY_REPLY \<and> services_of (heard W d) \<noteq> [] \<and>
         host (heard W d) = Some h \<and> throttle_of h < 0)) \<and>
   (hear P W ds e = Inr e' \<longrightarrow>
      postedReceives e' = postedReceives e + length ds \<and>
      list_at (itsServices e') u = list_at (itsServices e) u @ concat (map (announced_at u) (replies W ds)) \<and>
      itsReceivedResponses e' = itsReceivedResponses e + of_nat (length (replies W ds)))"
proof (intro conjI impI)
  let ?bad = "\<lambda>E d. reply_accepted E (heard W d) \<and> throttle_of (the (host (heard W d))) < 0"
  have read: "handleFrontendRead P W E (Received d) e = Inl y \<longleftrightarrow> y = NumericCast \<and> ?bad E d" for E d y and e :: "'a engine"
    by (auto simp: handle_datagram Let_def heard_def)
  have "hear P W ds e = Inl x \<longleftrightarrow> x = NumericCast \<and> (\<exists>E d. (E, d) \<in> set ds \<and> ?bad E d)"
  proof (induction ds arbitrary: e)
    case (Cons y ds)
    obtain E d where y: "y = (E, d)" by (cases y)
    show ?case
    proof (cases "handleFrontendRead P W E (Received d) e")
      case (Inl z)
      with read [of E d e z] show ?thesis by (auto simp: y)
    next
      case (Inr e1)
      then have "\<not> ?bad E d" using read [of E d e NumericCast] by simp
      with Inr Cons.IH [of e1] show ?thesis by (auto simp: y)
    qed
  qed simp
  then show "hear P W ds e = Inl x \<longleftrightarrow> x = NumericCast \<and>
      (\<exists>E d h. (E, d) \<in> set ds \<and> \<not> isShuttingDown E InProcessReply \<and>
         messagetype (heard W d) = SERVICE_DISCOVERY_REPLY \<and> services_of (heard W d) \<noteq> [] \<and>
         host (heard W d) = Some h \<and> throttle_of h < 0)"
    by (fastforce simp: reply_accepted_def)
next
  show "postedReceives e' = postedReceives e + length ds" if "hear P W ds e = Inr e'"
    using that
  proof (induction P W ds e rule: hear.induct)
    case (2 P W E d rest e)
    then obtain e1 where e1: "handleFrontendRead P W E (Received d) e = Inr e1" "hear P W rest e1 = Inr e'"
      by (auto split: sum.splits)
    from "2.IH" [OF e1] hear_one [OF e1(1)] show ?case by (simp add: post_receive_def)
  qed simp
qed (use hear_outcome in blast)+

text \<open>A frontend that reads a datagram which is no message, and then a reply with throttle -1.\<close>

theorem only_negative_throttle_fails_witness:
  "let W = sample_wire\<lparr>ParseFromString := \<lambda>d. if d = ''garbage'' then (False, default_message)
         else (True, (sample_reply ''a'' 1)\<lparr>host := Some \<lparr>host_ip = ''10.0.0.2'', host_port = 80,
                 host_comment = [], host_load = Fin 0, host_throttle = Some (-1)\<rparr>\<rparr>)\<rparr>
   in hear reference_platform W [(sample_engine_env, ''garbage''), (sample_engine_env, ''evil'')] sample_frontend =
        Inl NumericCast \<and>
      (\<forall>x. hear reference_platform W [(sample_engine_env, ''garbage'')] sample_frontend \<noteq> Inl x)"
proof -
  let ?bad = "(sample_reply ''a'' 1)\<lparr>host := Some \<lparr>host_ip = ''10.0.0.2'', host_port = 80,
      host_comment = [], host_load = Fin 0, host_throttle = Some (-1)\<rparr>\<rparr>"
  let ?W = "sample_wire\<lparr>ParseFromString := \<lambda>d. if d = ''garbage'' then (False, default_message) else (True, ?bad)\<rparr>"
  have heard: "heard ?W ''garbage'' = default_message" "heard ?W ''evil'' = ?bad" by (simp_all add: heard_def)
  have ty: "messagetype default_message \<noteq> SERVICE_DISCOVERY_REPLY" by (simp add: default_message_def)
  have bad: "messagetype ?bad = SERVICE_DISCOVERY_REPLY" "services_of ?bad \<noteq> []"
    "host ?bad = Some \<lparr>host_ip = ''10.0.0.2'', host_port = 80, host_comment = [], host_load = Fin 0,
       host_throttle = Some (-1)\<rparr>" by (simp_all add: sample_reply_def)
  note fails = only_negative_throttle_fails [of reference_platform ?W _ sample_frontend, THEN conjunct1]
  have "hear reference_platform ?W [(sample_engine_env, ''garbage''), (sample_engine_env, ''evil'')] sample_frontend = Inl NumericCast"
    unfolding fails by (intro conjI refl exI [of _ sample_engine_env] exI [of _ "''evil''"])
      (simp_all add: heard bad throttle_of_def)
  moreover have "hear reference_platform ?W [(sample_engine_env, ''garbage'')] sample_frontend \<noteq> Inl x" for x
    unfolding fails by (simp add: heard ty)
  ultimately show ?thesis unfolding Let_def by blast
qed

section \<open>The table after a round\<close>









end
