(* ===== verification/Cluster.thy ===== *)
theory Cluster
  imports Backend_Node Rounds
begin

text \<open>
  The system: one frontend, any number of backends and the network between them. One round
  of the discovery from the request to the table, and what the table can hold whatever the
  network does: the log of what each engine sent stands for the network, which may lose,
  delay, repeat and reorder datagrams.
\<close>

section \<open>One round\<close>

text \<open>
  A datagram is intact if decoding the receive buffer gives back every message it may
  encode: Protocol Buffers' round trip, for a datagram that fits in the buffer.
\<close>

definition intact :: "wire \<Rightarrow> string \<Rightarrow> bool" where
  "intact W b \<longleftrightarrow> (\<forall>m. b = SerializeToString W m \<longrightarrow> snd (ParseFromString W (received b)) = m)"

text \<open>What a step sent.\<close>

definition sent_by :: "'g engine \<Rightarrow> 'g engine \<Rightarrow> string set" where
  "sent_by e e' = snd ` set (drop (length (sentDatagrams e)) (sentDatagrams e'))"

lemma send_requests_datagrams: "send_requests N b ls = Inr sent \<Longrightarrow> snd ` set sent \<subseteq> {b}"
proof (induction ls arbitrary: sent)
  case (Cons st ls)
  then show ?case by (fastforce split: option.splits if_splits)
qed simp

lemma requests_sent:
  assumes "startServiceDiscovery N W E e = Inr e'" and "req \<in> sent_by e e'" and "\<not> isShuttingDown E InRequest"
  shows "req = SerializeToString W (discovery_request (itsHostname (itsServer e)) (uint (itsFrontendSequence e')))"
  using assms by (elim startServiceDiscovery_cases)
    (auto simp: sent_by_def post_receive_def sendDiscoveryRequest_def dest: send_requests_datagrams)

lemma reply_sent:
  assumes "handleBackendRead N W E r c e = Inr e'" and "rep \<in> sent_by e e'"
  shows "\<exists>d m. c = Received d \<and> rep = SerializeToString W m \<and>
     discovery_reply E (itsServer e) (seqnum (snd (ParseFromString W d))) = Inr m"
proof -
  obtain e1 again sent where o: "e' = e1\<lparr>postedReceives := postedReceives e + (if again then 1 else 0),
      sentDatagrams := sentDatagrams e @ sent\<rparr>"
    "sent = [] \<or> (\<exists>d m. c = Received d \<and> \<not> isShuttingDown E AtBackendRead \<and> sent = [(r, SerializeToString W m)] \<and>
        discovery_reply E (itsServer e) (seqnum (snd (ParseFromString W d))) = Inr m)"
    using handleBackendRead_outcome [OF assms(1)] by blast
  then have "rep \<in> snd ` set sent" using assms(2) by (simp add: sent_by_def)
  with o(2) show ?thesis by auto
qed

text \<open>
  C4. One round of the discovery: when a frontend asks, a backend answers the request and
  the answer is read before the next round, then every URI the backend serves is listed
  at the frontend, under its own name and under the per-host name, for the host name and port
  of the backend, and the pruning at the end of the round leaves it there. Of the network it
  is only assumed that the two datagrams arrive intact.
\<close>

theorem discovery_roundtrip:
  assumes "startServiceDiscovery N W Ef e = Inr e1" and "\<not> isShuttingDown Ef InRequest"
    and "req \<in> sent_by e e1" and "intact W req"
    and "handleBackendRead Nb W Eb r (Received (received req)) b = Inr b1"
    and "rep \<in> sent_by b b1" and "intact W rep"
    and "itsFrontendSequence e2 = itsFrontendSequence e1"
    and "handleFrontendRead P W Er (Received (received rep)) e2 = Inr e3" and "\<not> isShuttingDown Er InProcessReply"
    and "handler \<in> set (getURIMap Eb)" and "u = handler \<or> u = ''/'' @ itsHostname (itsServer b) @ handler"
  shows "\<exists>svc \<in> set (list_at (itsServices (close_round P E e3)) u).
     service_key svc = (itsHostname (itsServer b), uint (itsHttpPort (itsServer b))) \<and> URI svc = handler"
proof -
  have parse: "snd (ParseFromString W (received req)) =
      discovery_request (itsHostname (itsServer e)) (uint (itsFrontendSequence e2))"
    using requests_sent [OF assms(1,3,2)] assms(4,8) by (simp add: intact_def)
  obtain m where m: "rep = SerializeToString W m"
    "discovery_reply Eb (itsServer b) (uint (itsFrontendSequence e2)) = Inr m"
    using reply_sent [OF assms(5,6)] by (auto simp: parse discovery_request_def)
  with assms(7) have codec: "snd (ParseFromString W (received rep)) = m"
    by (simp add: intact_def)
  show ?thesis
    by (rule reply_reaches_table [OF m(2) codec assms(9,10) refl assms(11,12)])
qed

text \<open>An encoding for one request and one reply.\<close>

definition pair_wire :: "broadcast_message \<Rightarrow> broadcast_message \<Rightarrow> wire" where
  "pair_wire q m =
     \<lparr>ParseFromString = (\<lambda>d. if d = ''request'' then (True, q) else if d = ''reply'' then (True, m)
                              else (False, default_message)),
      SerializeToString = (\<lambda>x. if x = q then ''request'' else if x = m then ''reply'' else [])\<rparr>"

lemma pair_wire_simps [simp]:
  "received ''request'' = ''request''" "received ''reply'' = ''reply''"
  "ParseFromString (pair_wire q m) ''request'' = (True, q)" "ParseFromString (pair_wire q m) ''reply'' = (True, m)"
  "SerializeToString (pair_wire q m) q = ''request''"
  "q \<noteq> m \<Longrightarrow> SerializeToString (pair_wire q m) m = ''reply''"
  by (simp_all add: pair_wire_def received_def)

lemma pair_wire_intact [simp]: "intact (pair_wire q m) ''request''" "intact (pair_wire q m) ''reply''"
  by (auto simp: intact_def pair_wire_def received_def split: if_splits)

definition sample_question :: broadcast_message where
  "sample_question = discovery_request ''localhost'' 1"

lemma sample_question_fields [simp]:
  "messagetype sample_question = SERVICE_DISCOVERY_REQUEST" "seqnum sample_question = 1"
  by (simp_all add: sample_question_def discovery_request_def)

lemma sample_answer_fields:
  assumes "discovery_reply sample_engine_env (itsServer sample_backend) 1 = Inr m"
  shows "messagetype m = SERVICE_DISCOVERY_REPLY" "host m \<noteq> None" "services_of m \<noteq> []"
    "0 \<le> throttle_of (the (host m))" "sample_question \<noteq> m"
proof -
  obtain h where h: "host m = Some h" "throttle_of h = uint (itsThrottleLimit (itsServer sample_backend))"
    using discovery_reply_fields(6) [OF assms] by blast
  show "messagetype m = SERVICE_DISCOVERY_REPLY" using discovery_reply_fields(2) [OF assms] .
  then show "sample_question \<noteq> m" by (auto simp: sample_question_def discovery_request_def)
  show "host m \<noteq> None" "0 \<le> throttle_of (the (host m))" using h by simp_all
  show "services_of m \<noteq> []" using discovery_reply_fields(4) [OF assms] by simp
qed

lemma sample_answer_accepted:
  assumes "discovery_reply sample_engine_env (itsServer sample_backend) 1 = Inr m"
  shows "reply_accepted sample_engine_env m"
  using sample_answer_fields [OF assms] by (simp add: reply_accepted_def)

lemma sample_question_asked:
  "sendDiscoveryRequest (pair_wire sample_question m) sample_engine_env (itsServer sample_engine) 1 = ''request''"
  by (simp add: sendDiscoveryRequest_def sample_question_def [symmetric] sample_engine_def engine_config_def
      sample_config_def get_optional_def)

theorem discovery_roundtrip_witness:
  "\<exists>W e1 e3. startServiceDiscovery sample_net W sample_engine_env sample_engine = Inr e1 \<and>
     handleFrontendRead reference_platform W sample_engine_env (Received ''reply'') e1 = Inr e3 \<and>
     (\<exists>svc \<in> set (list_at (itsServices (close_round reference_platform sample_engine_env e3)) ''/wms'').
        URI svc = ''/wms'')"
proof -
  obtain m where m: "discovery_reply sample_engine_env (itsServer sample_backend) 1 = Inr m"
    using sample_discovery_reply by blast
  note fields = sample_answer_fields [OF m]
  let ?W = "pair_wire sample_question m" and ?r = "(''10.0.0.1'', 4000)"
  obtain e1 where e1: "startServiceDiscovery sample_net ?W sample_engine_env sample_engine = Inr e1"
    "sentDatagrams e1 = [((''10.0.0.2'', 31337), ''request'')]"
    by (simp add: startServiceDiscovery_def Let_def post_receive_def sample_question_asked sample_requests
        del: send_requests.simps)
  obtain b1 where b1: "handleBackendRead sample_net ?W sample_engine_env ?r (Received (received ''request''))
      sample_backend = Inr b1" "''reply'' \<in> sent_by sample_backend b1"
    using m fields by (simp add: handleBackendRead_running [OF sample_running] sent_by_def post_receive_def)
  obtain e3 where e3: "handleFrontendRead reference_platform ?W sample_engine_env (Received (received ''reply'')) e1 = Inr e3"
    using sample_answer_accepted [OF m] fields by (simp add: handle_datagram)
  have "\<exists>svc \<in> set (list_at (itsServices (close_round reference_platform sample_engine_env e3)) ''/wms'').
      service_key svc = (itsHostname (itsServer sample_backend), uint (itsHttpPort (itsServer sample_backend))) \<and>
      URI svc = ''/wms''"
    by (rule discovery_roundtrip [OF e1(1) _ _ _ b1 _ refl e3]) (simp_all add: sent_by_def e1(2))
  then have found: "\<exists>svc \<in> set (list_at (itsServices (close_round reference_platform sample_engine_env e3)) ''/wms'').
      URI svc = ''/wms''" by blast
  from e3 have "handleFrontendRead reference_platform ?W sample_engine_env (Received ''reply'') e1 = Inr e3"
    by (simp only: pair_wire_simps)
  with e1(1) found show ?thesis by blast
qed

section \<open>Any number of rounds\<close>

record 'g cluster =
  front :: "'g frontend"
  nodes :: "nat \<Rightarrow> 'g engine"

definition started :: "wire \<Rightarrow> broadcast_mode \<Rightarrow> 'g engine \<Rightarrow> bool" where
  "started W mode e \<longleftrightarrow>
     (\<exists>N C e0 N' E. new_engine N C = Inr e0 \<and> launch N' W (E :: 'g engine_env) mode e0 = Inr e)"

text \<open>
  A datagram that backend \<open>i\<close> has sent and that decodes to what it encodes, or one that is no
  reply, from wherever it comes. The frontend receives one when no other waits in its buffer.
\<close>

definition genuine :: "wire \<Rightarrow> (nat \<Rightarrow> 'g engine) \<Rightarrow> string \<Rightarrow> bool" where
  "genuine W ns b \<longleftrightarrow>
     (\<exists>i. \<exists>d \<in> snd ` set (sentDatagrams (ns i)). intact W d \<and> b = received d) \<or>
     messagetype (snd (ParseFromString W b)) \<noteq> SERVICE_DISCOVERY_REPLY"

definition delivered :: "wire \<Rightarrow> (nat \<Rightarrow> 'g engine) \<Rightarrow> 'g engine \<Rightarrow> string \<Rightarrow> bool" where
  "delivered W ns e d \<longleftrightarrow> set (completedReceives e) \<subseteq> {Cancelled, ReceiveError} \<and> genuine W ns (received d)"

text \<open>
  \<open>serves i\<close> are the URIs the plugins of backend \<open>i\<close> ever register. What a backend has sent
  may reach the frontend at any time, any number of times, or never; anything else may arrive
  at either side and is no reply to the frontend. An engine may be started again at any time
  (a backend under its old identity); what it sent before may still arrive.
\<close>

inductive cluster_step ::
  "'g platform \<Rightarrow> wire \<Rightarrow> (nat \<Rightarrow> string set) \<Rightarrow> 'g cluster \<Rightarrow> 'g cluster \<Rightarrow> bool"
  for P :: "'g platform" and W :: wire and serves :: "nat \<Rightarrow> string set" where
  front_step:
    "frontend_step P W (delivered W (nodes s)) (\<lambda>e m. True) plugin_op (front s) x \<Longrightarrow>
       cluster_step P W serves s (s\<lparr>front := x\<rparr>)"
| node_step:
    "backend_step W (\<lambda>E. set (getURIMap E) \<subseteq> serves i) (nodes s i) e \<Longrightarrow>
       cluster_step P W serves s (s\<lparr>nodes := (nodes s)(i := e)\<rparr>)"
| front_restart:
    "started W ModeFrontend e \<Longrightarrow> cluster_step P W serves s (s\<lparr>front := (e, Waiting)\<rparr>)"
| node_restart:
    "started W ModeBackend e \<Longrightarrow> itsServer e = itsServer (nodes s i) \<Longrightarrow>
       cluster_step P W serves s
         (s\<lparr>nodes := (nodes s)(i := e\<lparr>sentDatagrams := sentDatagrams (nodes s i)\<rparr>)\<rparr>)"

inductive cluster_reachable ::
  "'g platform \<Rightarrow> wire \<Rightarrow> (nat \<Rightarrow> string set) \<Rightarrow> 'g cluster \<Rightarrow> bool"
  for P :: "'g platform" and W :: wire and serves :: "nat \<Rightarrow> string set" where
  all_started:
    "started W ModeFrontend e \<Longrightarrow> (\<And>i. started W ModeBackend (ns i)) \<Longrightarrow>
       cluster_reachable P W serves \<lparr>front = (e, Waiting), nodes = ns\<rparr>"
| cluster_moved:
    "cluster_reachable P W serves s \<Longrightarrow> cluster_step P W serves s s' \<Longrightarrow> cluster_reachable P W serves s'"

text \<open>Backend \<open>i\<close> offers the service under the URI \<open>u\<close>.\<close>

definition offered :: "(nat \<Rightarrow> string set) \<Rightarrow> (nat \<Rightarrow> server_config) \<Rightarrow> string \<Rightarrow> backend_service \<Rightarrow> nat \<Rightarrow> bool" where
  "offered serves cfg u svc i \<longleftrightarrow>
     service_key svc = (itsHostname (cfg i), uint (itsHttpPort (cfg i))) \<and>
     IP (Backend svc) = itsHttpAddress (cfg i) \<and> Throttle (Backend svc) = itsThrottleLimit (cfg i) \<and>
     URI svc \<in> serves i \<and> u \<in> {URI svc, ''/'' @ itsHostname (cfg i) @ URI svc}"

fun call_offered :: "(string \<Rightarrow> backend_service \<Rightarrow> bool) \<Rightarrow> 'g table_op \<Rightarrow> bool" where
  "call_offered offer (OpAddService E (Some svc) u w t) = offer u svc"
| "call_offered offer (OpAddBackendInfoRequest req) = True"
| "call_offered offer op = False"

text \<open>Every service a list holds, or a call under way will add to it, is offered.\<close>

fun lists_offered :: "(string \<Rightarrow> backend_service \<Rightarrow> bool) \<Rightarrow> 'g frontend \<Rightarrow> bool" where
  "lists_offered offer (e, t) \<longleftrightarrow>
     (\<forall>u. \<forall>svc \<in> set (list_at (itsServices e) u). offer u svc) \<and>
     (case t of InReply ops \<Rightarrow> list_all (call_offered offer) ops | _ \<Rightarrow> True)"

definition some_offers :: "(nat \<Rightarrow> string set) \<Rightarrow> 'g cluster \<Rightarrow> string \<Rightarrow> backend_service \<Rightarrow> bool" where
  "some_offers serves s u svc \<longleftrightarrow> (\<exists>i. offered serves (\<lambda>i. itsServer (nodes s i)) u svc i)"

text \<open>Whatever the next handlers will find in the buffer is genuine.\<close>

fun buffer_ok :: "(string \<Rightarrow> bool) \<Rightarrow> 'g frontend \<Rightarrow> bool" where
  "buffer_ok good (e, t) \<longleftrightarrow>
     (\<forall>q \<in> set (completedReceives e). case completion_of q (itsReceiveBuffer e) of Received b \<Rightarrow> good b | _ \<Rightarrow> True)"

definition cluster_ok :: "wire \<Rightarrow> (nat \<Rightarrow> string set) \<Rightarrow> 'g cluster \<Rightarrow> bool" where
  "cluster_ok W serves s \<longleftrightarrow>
     (\<forall>i. backend_ok W (\<lambda>E :: 'g engine_env. set (getURIMap E) \<subseteq> serves i) (nodes s i)) \<and>
     lists_offered (some_offers serves s) (front s) \<and> buffer_ok (genuine W (nodes s)) (front s)"

subsection \<open>The backends\<close>

lemma backend_step_server:
  assumes "backend_step W reads e e'"
  shows "itsServer e' = itsServer e"
  using assms
proof cases
  case (backend_read q cs E N r)
  from handleBackendRead_outcome [OF backend_read(3)] show ?thesis by auto
qed (simp_all add: receive_datagram_def receive_fails_def setPause_def setPauseUntil_def setContinue_def)

lemma backend_step_log:
  assumes "backend_step W reads e e'"
  shows "set (sentDatagrams e) \<subseteq> set (sentDatagrams e')"
  using assms
proof cases
  case (backend_read q cs E N r)
  from handleBackendRead_outcome [OF backend_read(3)] show ?thesis by auto
qed (simp_all add: receive_datagram_def receive_fails_def setPause_def setPauseUntil_def setContinue_def)

lemma started_backend_ok: "started W ModeBackend e \<Longrightarrow> backend_ok W reads e"
  unfolding started_def using backend_ok_launched by blast

subsection \<open>The frontend\<close>

lemma started_frontend:
  assumes "started W ModeFrontend (e :: 'g engine)"
  shows "list_at (itsServices e) u = []" "completedReceives e = []"
proof -
  obtain N C e0 N' and E :: "'g engine_env" where l: "new_engine N C = Inr e0" "launch N' W E ModeFrontend e0 = Inr e"
    using assms by (auto simp: started_def)
  then obtain services where "setForwarding (itsForwardingMode e0) (itsBalanceFactor e0) (itsStickyCookie e0)
      (itsServices e0) = Inr services" "itsServices e = services" "completedReceives e = completedReceives e0"
    using launch_frontend_start [OF l(2)] by (auto simp: post_receive_def elim!: startServiceDiscovery_cases)
  moreover have "itsServices e0 = empty_services" "completedReceives e0 = []"
    using l(1) by (auto simp: new_engine_def engine_config_def Let_def split: option.splits)
  ultimately show "list_at (itsServices e) u = []" "completedReceives e = []"
    using setForwarding_fields(1) by (fastforce simp: list_at_def uri_list_def empty_services_def, simp)
qed

text \<open>The calls for the reply of a backend add what that backend offers.\<close>

lemma reply_offered:
  assumes "discovery_reply E (cfg i) n = Inr m" and "set (getURIMap E) \<subseteq> serves i"
    and "op \<in> set (reply_calls E' m)"
  shows "call_offered (\<lambda>u svc. offered serves cfg u svc i) op"
proof -
  obtain h where h: "host m = Some h" "host_port h = uint (itsHttpPort (cfg i))"
    "throttle_of h = uint (itsThrottleLimit (cfg i))" "host_ip h = itsHttpAddress (cfg i)"
    using assms(1) by (auto simp: discovery_reply_def throttle_of_def numeric_cast_int32_def split: sum.splits if_splits)
  note m = discovery_reply_fields(1,4) [OF assms(1)]
  from assms(3) show ?thesis
  proof (cases rule: reply_calls_cases)
    case (add j u service)
    then obtain handler where "handler \<in> set (getURIMap E)" "service = reply_service (isURIPrefix E) handler"
      by (auto simp: m)
    with add assms(2) h m show ?thesis
      by (auto simp: offered_def announced_service_def reply_server_def service_key_def reply_service_def direct_uri_def)
  qed simp
qed

lemma call_offered_mono: "call_offered f op \<Longrightarrow> (\<And>u svc. f u svc \<Longrightarrow> g u svc) \<Longrightarrow> call_offered g op"
  by (cases "(f, op)" rule: call_offered.cases) auto

lemma lists_offered_call:
  assumes "lists_offered offer (e, t)" and "call_offered offer op" and "table_exec P op (itsServices e) = Some s"
  shows "lists_offered offer (e\<lparr>itsServices := s\<rparr>, t)"
proof -
  have "offer u svc" if svc: "svc \<in> set (list_at s u)" for u svc
  proof (cases "(offer, op)" rule: call_offered.cases)
    case (1 offer' E v u' w t')
    with assms(3) have "s = snd (addService P E (Some v) u' w t' (itsServices e))" by simp
    with svc assms(1,2) 1 show ?thesis by (auto simp: list_at_addService split: if_splits)
  next
    case (2 offer' req)
    then have "itsServicesByURI s = itsServicesByURI (itsServices e)"
      using assms(3) by (auto simp: addBackendInfoRequest_def split: option.splits)
    from list_at_cong [OF this] svc assms(1) show ?thesis by simp
  qed (use assms(2) in auto)
  with assms(1) show ?thesis by simp
qed

lemma buffer_ok_step:
  assumes "frontend_step P W arrives accept allowed x y" and "buffer_ok good x"
    and "\<And>e d. arrives e d \<Longrightarrow> set (completedReceives e) \<subseteq> {Cancelled, ReceiveError} \<and> good (received d)"
  shows "buffer_ok good y"
  using assms(1,2)
proof cases
  case (datagram_arrives e d)
  have "set (completedReceives e) \<subseteq> {Cancelled, ReceiveError}" "good (received d)"
    using assms(3) [OF datagram_arrives(4)] by simp_all
  then show ?thesis using datagram_arrives(2) received_content [of d e] by (auto simp: receive_datagram_def)
next
  case (other_completion e q cs c E e')
  from other_completion_outcome [OF other_completion(6,5)] other_completion(1-3) assms(2) show ?thesis
    by (simp add: post_receive_def split: if_splits)
next
  case (wakes_up N E e e')
  then have "completedReceives e' = completedReceives e" "itsReceiveBuffer e' = itsReceiveBuffer e"
    by (auto simp: wake_up_def post_receive_def elim!: startServiceDiscovery_cases split: if_splits)
  with wakes_up assms(2) show ?thesis by simp
next
  case (deadline e E)
  have "itsReceiveBuffer (close_round P E e) = itsReceiveBuffer e" by (simp add: close_round_def Let_def)
  with deadline assms(2) show ?thesis by auto
qed (use assms(2) in \<open>auto simp: receive_fails_def post_receive_def\<close>)

lemma lists_offered_step:
  fixes x :: "'g frontend"
  assumes "frontend_step P W arrives accept plugin_op x y" and "lists_offered offer x" and "buffer_ok good x"
    and "\<And>b (E :: 'g engine_env) op. good b \<Longrightarrow> reply_accepted E (snd (ParseFromString W b)) \<Longrightarrow>
           op \<in> set (reply_calls E (snd (ParseFromString W b))) \<Longrightarrow> call_offered offer op"
  shows "lists_offered offer y"
  using assms(1,2)
proof cases
  case (reply_begins e q cs b m E)
  then have "list_all (call_offered offer) (reply_calls E m)"
    using assms(3) assms(4) [of b E] by (simp add: list_all_iff)
  with reply_begins(1,2) assms(2) show ?thesis by simp
next
  case (reply_call op e s ops)
  then have "lists_offered offer (e, InReply ops)" "call_offered offer op" using assms(2) by simp_all
  from lists_offered_call [OF this reply_call(3)] reply_call(2) show ?thesis by simp
next
  case (other_completion e q cs c E e')
  from other_completion_outcome [OF other_completion(6,5)] other_completion(1,2) assms(2) show ?thesis
    by (simp add: post_receive_def split: if_splits)
next
  case (deadline e E)
  with assms(2) show ?thesis by (auto simp: list_at_prune)
next
  case (wakes_up N E e e')
  then have "itsServices e' = itsServices e"
    by (auto simp: wake_up_def post_receive_def elim!: startServiceDiscovery_cases split: if_splits)
  with wakes_up assms(2) show ?thesis by simp
next
  case (other_thread op e s t)
  from list_at_plugin [OF other_thread(3,4)] obtain q where "\<And>u. list_at s u = filter q (list_at (itsServices e) u)"
    by blast
  with other_thread(1,2) assms(2) show ?thesis by (auto split: io_task.splits)
qed (use assms(2) in \<open>auto simp: receive_datagram_def receive_fails_def post_receive_def\<close>)

subsection \<open>The invariant\<close>

lemma genuine_offered:
  fixes s :: "'g cluster"
  assumes "cluster_ok W serves s" and "genuine W (nodes s) b"
    and "reply_accepted E (snd (ParseFromString W b))" and "op \<in> set (reply_calls E (snd (ParseFromString W b)))"
  shows "call_offered (some_offers serves s) op"
proof -
  obtain i d where d: "d \<in> snd ` set (sentDatagrams (nodes s i))" "intact W d" "b = received d"
    using assms(2,3) by (auto simp: genuine_def reply_accepted_def)
  then have "own_reply W (\<lambda>E :: 'g engine_env. set (getURIMap E) \<subseteq> serves i) (itsServer (nodes s i)) d"
    using assms(1) unfolding cluster_ok_def backend_ok_def by blast
  then obtain E' :: "'g engine_env" and n m where r: "set (getURIMap E') \<subseteq> serves i"
    "discovery_reply E' (itsServer (nodes s i)) n = Inr m" "d = SerializeToString W m"
    unfolding own_reply_def by blast
  with d(2,3) have "snd (ParseFromString W b) = m" by (simp add: intact_def)
  with reply_offered [where cfg = "\<lambda>i. itsServer (nodes s i)" and serves = serves, OF _ r(1)] r(2) assms(4)
  have "call_offered (\<lambda>u svc. offered serves (\<lambda>i. itsServer (nodes s i)) u svc i) op" by simp
  then show ?thesis by (rule call_offered_mono) (auto simp: some_offers_def)
qed

lemma buffer_ok_mono: "buffer_ok f x \<Longrightarrow> (\<And>b. f b \<Longrightarrow> g b) \<Longrightarrow> buffer_ok g x"
  by (cases "(f, x)" rule: buffer_ok.cases) (auto split: completion.splits)

lemma genuine_mono:
  assumes "\<And>i. set (sentDatagrams (ns i)) \<subseteq> set (sentDatagrams (ns' i))"
  shows "genuine W ns b \<Longrightarrow> genuine W ns' b"
  using assms by (fastforce simp: genuine_def)

lemma some_offers_cong:
  "(\<And>i. itsServer (nodes s' i) = itsServer (nodes s i)) \<Longrightarrow> some_offers serves s' = some_offers serves s"
  by (simp add: some_offers_def fun_eq_iff)

lemma cluster_ok_step:
  assumes "cluster_step P W serves s s'" and "cluster_ok W serves s"
  shows "cluster_ok W serves s'"
  using assms(1)
proof cases
  case (front_step x)
  have buffer: "buffer_ok (genuine W (nodes s)) (front s)" using assms(2) by (simp add: cluster_ok_def)
  have "lists_offered (some_offers serves s) x"
    by (rule lists_offered_step [OF front_step(2) _ buffer genuine_offered [OF assms(2)]])
      (use assms(2) in \<open>simp_all add: cluster_ok_def\<close>)
  moreover have "buffer_ok (genuine W (nodes s)) x"
    by (rule buffer_ok_step [OF front_step(2) buffer]) (simp add: delivered_def)
  moreover have "some_offers serves (s\<lparr>front := x\<rparr>) = some_offers serves s" by (rule some_offers_cong) simp
  ultimately show ?thesis using assms(2) by (simp add: front_step(1) cluster_ok_def)
next
  case (node_step i e)
  have "some_offers serves s' = some_offers serves s"
    by (rule some_offers_cong) (simp add: node_step(1) backend_step_server [OF node_step(2)])
  moreover have "buffer_ok (genuine W (nodes s')) (front s)"
    by (rule buffer_ok_mono [of "genuine W (nodes s)"], use assms(2) in \<open>simp add: cluster_ok_def\<close>, erule genuine_mono [rotated])
      (use backend_step_log [OF node_step(2)] in \<open>auto simp: node_step(1)\<close>)
  moreover have "backend_ok W (\<lambda>E. set (getURIMap E) \<subseteq> serves i) e"
    using backend_ok_step [OF node_step(2)] assms(2) by (simp add: cluster_ok_def)
  ultimately show ?thesis using assms(2) by (simp add: cluster_ok_def node_step(1))
next
  case (front_restart e)
  have "some_offers serves (s\<lparr>front := (e, Waiting)\<rparr>) = some_offers serves s" by (rule some_offers_cong) simp
  with assms(2) started_frontend [OF front_restart(2)] show ?thesis
    by (simp add: front_restart(1) cluster_ok_def)
next
  case (node_restart e i)
  let ?e = "e\<lparr>sentDatagrams := sentDatagrams (nodes s i)\<rparr>" and ?reads = "\<lambda>E. set (getURIMap E) \<subseteq> serves i"
  have "some_offers serves s' = some_offers serves s"
    by (rule some_offers_cong) (simp add: node_restart(1,3))
  moreover have "buffer_ok (genuine W (nodes s')) (front s)"
    by (rule buffer_ok_mono [of "genuine W (nodes s)"], use assms(2) in \<open>simp add: cluster_ok_def\<close>, erule genuine_mono [rotated])
      (auto simp: node_restart(1))
  moreover have "backend_ok W ?reads ?e"
    using started_backend_ok [OF node_restart(2), of ?reads] assms(2) node_restart(3)
    by (simp add: cluster_ok_def backend_ok_def)
  ultimately show ?thesis using assms(2) by (simp add: cluster_ok_def node_restart(1))
qed

lemma cluster_reachable_ok: "cluster_reachable P W serves s \<Longrightarrow> cluster_ok W serves s"
proof (induction rule: cluster_reachable.induct)
  case (all_started e ns)
  with started_backend_ok [OF all_started(2)] started_frontend [OF all_started(1)] show ?case
    by (simp add: cluster_ok_def)
qed (rule cluster_ok_step)

lemma getService_from_list:
  assumes "fst (getService P E r s) = Inr (Some svc)"
  shows "svc \<in> set (list_at s (translate P (itsPrefixMap s) (getResource r)))"
  using assms by (auto simp: getService_def choose_backend_def Let_def list_at_def uri_list_def
      split: option.splits prod.splits sum.splits if_splits)

lemma answer_offered:
  assumes "cluster_reachable P W serves s" and "front s = (e, t)"
    and "fst (getService P E r (itsServices e)) = Inr (Some svc)"
  shows "some_offers serves s (translate P (itsPrefixMap (itsServices e)) (getResource r)) svc"
  using cluster_reachable_ok [OF assms(1)] assms(2) getService_from_list [OF assms(3)] by (simp add: cluster_ok_def)

text \<open>
  C7. In every state of the system, whatever the network lost, delayed, repeated or
  reordered, whatever else the engines received and however often they were restarted: a
  request the frontend forwards, be it in the middle of a reply, goes to
  the address, under the host name and the port of a backend of the system, for a URI which
  the plugins of that backend register, and the (translated) URI of the request is that URI
  or the per-host one of the same backend.
\<close>

theorem requests_reach_serving_backends:
  assumes "cluster_reachable P W serves s" and "front s = (e, t)"
    and "fst (getService P E r (itsServices e)) = Inr (Some svc)"
  shows "\<exists>i. let cfg = itsServer (nodes s i)
     in service_key svc = (itsHostname cfg, uint (itsHttpPort cfg)) \<and>
        IP (Backend svc) = itsHttpAddress cfg \<and> Throttle (Backend svc) = itsThrottleLimit cfg \<and>
        URI svc \<in> serves i \<and>
        translate P (itsPrefixMap (itsServices e)) (getResource r) \<in> {URI svc, ''/'' @ itsHostname cfg @ URI svc}"
  using answer_offered [OF assms] unfolding some_offers_def offered_def Let_def by blast

lemma cluster_front_steps:
  assumes "(frontend_step P W (delivered W (nodes s)) (\<lambda>e m. True) plugin_op)\<^sup>*\<^sup>* (front s) x" and "cluster_reachable P W serves s"
  shows "cluster_reachable P W serves (s\<lparr>front := x\<rparr>)"
  using assms
proof (induction rule: rtranclp_induct)
  case base
  have "s\<lparr>front := front s\<rparr> = s" by simp
  with base show ?case by simp
next
  case (step x y)
  from front_step [of P W "s\<lparr>front := x\<rparr>" y serves] step cluster_moved show ?case by fastforce
qed

lemma cluster_node_steps:
  assumes "(backend_step W (\<lambda>E. set (getURIMap E) \<subseteq> serves i))\<^sup>*\<^sup>* (nodes s i) e" and "cluster_reachable P W serves s"
  shows "cluster_reachable P W serves (s\<lparr>nodes := (nodes s)(i := e)\<rparr>)"
  using assms
proof (induction rule: rtranclp_induct)
  case (step e e')
  with node_step [of W serves i "s\<lparr>nodes := (nodes s)(i := e)\<rparr>" e' P] cluster_moved show ?case by fastforce
qed simp

lemma sample_cluster_forwards:
  "\<exists>W s e svc. cluster_reachable reference_platform W (\<lambda>i. {''/wms''}) s \<and> front s = (e, Waiting) \<and>
     fst (getService reference_platform sample_env sample_request (itsServices e)) = Inr (Some svc)"
proof -
  let ?P = "reference_platform" and ?E = "sample_engine_env" and ?serves = "\<lambda>i :: nat. {''/wms''}"
  obtain m where m: "discovery_reply ?E (itsServer sample_backend) 1 = Inr m"
    using sample_discovery_reply by blast
  note fields = sample_answer_fields [OF m]
  let ?W = "pair_wire sample_question m" and ?r = "(''10.0.0.1'', 4000)"
  let ?b1 = "sample_asked ''request'' ?r ''reply''"
  obtain f where f: "launch sample_net ?W ?E ModeFrontend
      (sample_engine\<lparr>itsBackendSocket := (''127.0.0.1'', itsUdpListenerPort sample_engine)\<rparr>) = Inr f"
    "postedReceives f = 1" "completedReceives f = []" "itsServices f = empty_services\<lparr>itsFwdMode := Random,
       itsBalancingCoefficient := Fin 2, itsCookieName := ''smartmet-session-id''\<rparr>"
    by (simp add: sample_launch_wire)
  let ?f1 = "reply_heard ?P ?E ''reply'' m f"
  let ?s0 = "\<lparr>front = (f, Waiting), nodes = \<lambda>i. sample_listening\<rparr>"
  let ?s1 = "?s0\<lparr>nodes := (nodes ?s0)(0 := ?b1)\<rparr>"
  let ?s2 = "?s1\<lparr>front := (?f1, Waiting)\<rparr>"
  have "started ?W ModeFrontend f" "started ?W ModeBackend sample_listening"
    unfolding started_def using sample_new_engine f(1) sample_listening_launched
    by (blast, simp add: launch_def) blast
  then have r0: "cluster_reachable ?P ?W ?serves ?s0" by (rule all_started)
  have "(backend_step ?W (\<lambda>E. set (getURIMap E) \<subseteq> ?serves 0))\<^sup>*\<^sup>* sample_listening ?b1"
    using sample_asked_steps [of ?W "''request''" m "\<lambda>E. set (getURIMap E) \<subseteq> ?serves 0" ?r] m fields by simp
  then have r1: "cluster_reachable ?P ?W ?serves ?s1"
    using cluster_node_steps [OF _ r0] by simp
  have "delivered ?W (nodes ?s1) f ''reply''"
    unfolding delivered_def genuine_def using f(3) by (auto intro!: exI [of _ 0] bexI [of _ "''reply''"])
  then have "(frontend_step ?P ?W (delivered ?W (nodes ?s1)) (\<lambda>e m. True) plugin_op)\<^sup>*\<^sup>* (f, Waiting) (?f1, Waiting)"
    using f(2,3) fields sample_answer_accepted [OF m] by (intro reply_is_heard) simp_all
  then have reach: "cluster_reachable ?P ?W ?serves ?s2"
    using cluster_front_steps [OF _ r1] by simp
  have services: "services_of m = [reply_service (isURIPrefix ?E) ''/wms'']"
    using discovery_reply_fields(4) [OF m] by simp
  let ?S = "registered ?P ?E m (itsServices f)" and ?v = "announced_service m
      (reply_server m (the (host m)) (of_int (throttle_of (the (host m))))) (hd (services_of m))"
  have table: "itsServices ?f1 = ?S" by (simp add: reply_heard_def post_receive_def)
  have name: "msg_name m = ''localhost''"
    using discovery_reply_fields(1) [OF m] by (simp add: sample_backend_def sample_engine_def engine_config_def
        sample_config_def get_optional_def)
  have plain: "\<not> DefinesPrefix ?v" by (simp add: services reply_service_def announced_service_def is_prefix_of_def)
  have prefixes: "itsPrefixMap ?S = []"
    using plain by (simp add: registered_def Let_def services f(4) empty_services_def)
  obtain g where find: "omap_find (itsServicesByURI ?S) ''/wms'' = Some ([?v], g)"
    "fwd_mode g = Random" "length (itsBackendInfos g) = 1"
    by (simp add: registered_def Let_def services f(4) find_add_to_list reply_service_def direct_uri_def name
        empty_services_def new_forwarder_def)
  have tr: "translate ?P (itsPrefixMap ?S) (getResource sample_request) = ''/wms''"
    unfolding prefixes by (simp add: translate_def sample_request_def)
  have pick: "fst (fwd_getBackend ?P (requestStatus sample_env) sample_request g) = Inr 0"
    using find(2,3) by (auto simp: fwd_getBackend_def random_getBackend_def reference_platform_def
        numeric_cast_size_def length_Suc_conv)
  have svc: "fst (getService ?P sample_env sample_request (itsServices ?f1)) = Inr (Some ?v)"
    using getService_at [OF find(1) [folded tr] pick] by (simp add: table)
  with reach show ?thesis by fastforce
qed

theorem requests_reach_serving_backends_witness:
  "\<exists>W s e svc. cluster_reachable reference_platform W (\<lambda>i. {''/wms''}) s \<and> front s = (e, Waiting) \<and>
     fst (getService reference_platform sample_env sample_request (itsServices e)) = Inr (Some svc) \<and>
     URI svc = ''/wms''"
proof -
  obtain W s e svc where s: "cluster_reachable reference_platform W (\<lambda>i. {''/wms''}) s" "front s = (e, Waiting)"
    "fst (getService reference_platform sample_env sample_request (itsServices e)) = Inr (Some svc)"
    using sample_cluster_forwards by blast
  with requests_reach_serving_backends [OF s] show ?thesis by (fastforce simp: Let_def)
qed

end
