(* ===== verification/Table_Calls.thy ===== *)
theory Table_Calls
  imports Services_Report Table_Runs
begin

text \<open>
  The calls of \<open>Services\<close> as the threads make them: which mutex each takes and how (\<open>itsMutex\<close>
  and \<open>itsSentinelMutex\<close>, both read-write locks), and the accesses it makes while holding it,
  one by one. Executed one after the other they do what the operation does as a whole.
\<close>

section \<open>Calls and their answers\<close>

datatype query =
    AskBackendAlive string int
  | AskBackends string bool
  | AskBackendList string
  | AskInfoBackends string
  | AskInfoNames
  | AskStatus bool

datatype 'g table_call = Update "'g table_op" | Ask query

datatype answer =
    Service "exn + backend_service option"
  | Flag bool
  | Report table
  | Tuples "(string \<times> string \<times> int) list"
  | Names "string list"
  | Text string
  | Nothing

fun answer_query :: "'g platform \<Rightarrow> query \<Rightarrow> 'g services \<Rightarrow> answer" where
  "answer_query P (AskBackendAlive h p) s = Flag (queryBackendAlive h p s)"
| "answer_query P (AskBackends service full) s = Report (backends P service full s)"
| "answer_query P (AskBackendList service) s = Tuples (getBackendList P service s)"
| "answer_query P (AskInfoBackends n) s = Tuples (getInfoRequestBackendList n s)"
| "answer_query P AskInfoNames s = Names (getInfoRequestNames s)"
| "answer_query P (AskStatus full) s = Text (services_status full s)"

text \<open>A call as one step: its answer and the table it leaves, none if the process kills itself.\<close>

fun perform :: "'g platform \<Rightarrow> 'g table_call \<Rightarrow> 'g services \<Rightarrow> answer \<times> 'g services option" where
  "perform P (Update (OpGetService E r)) s = (case getService P E r s of (x, s') \<Rightarrow> (Service x, Some s'))"
| "perform P (Update (OpRemoveBackend E h p u)) s =
     (case removeBackend P E h p u s of (Returned b, s') \<Rightarrow> (Flag b, Some s') | (Killed, s') \<Rightarrow> (Nothing, None))"
| "perform P (Update (OpSetBackendAlive h p)) s = (Nothing, Some (setBackendAlive h p s))"
| "perform P (Update (OpSignalBackendConnection h p)) s = (Nothing, Some (signalBackendConnection h p s))"
| "perform P (Update (OpLatestSequence E n)) s = (case latestSequence P E n s of (b, s') \<Rightarrow> (Flag b, Some s'))"
| "perform P (Update (OpAddService E svc u w t)) s =
     (case addService P E svc u w t s of (b, s') \<Rightarrow> (Flag b, Some s'))"
| "perform P (Update (OpAddBackendInfoRequest req)) s =
     (case addBackendInfoRequest req s of (b, s') \<Rightarrow> (Flag b, Some s'))"
| "perform P (Update (OpSetForwarding m a c)) s =
     (Nothing, Some (case setForwarding m a c s of Inl e \<Rightarrow> s | Inr s' \<Rightarrow> s'))"
| "perform P (Ask q) s = (answer_query P q s, Some s)"

lemma perform_update: "snd (perform P (Update op) s) = table_exec P op s"
  by (cases op) (auto split: prod.split fate.split sum.split)

section \<open>Which mutex a call takes\<close>

datatype mutex = ItsMutex | ItsSentinelMutex
datatype access = ReadLock | WriteLock

fun guarded_by :: "'g table_call \<Rightarrow> (mutex \<times> access) option" where
  "guarded_by (Update (OpGetService E r)) = Some (ItsMutex, ReadLock)"
| "guarded_by (Update (OpRemoveBackend E h p u)) = Some (ItsMutex, WriteLock)"
| "guarded_by (Update (OpSetBackendAlive h p)) = Some (ItsSentinelMutex, ReadLock)"
| "guarded_by (Update (OpSignalBackendConnection h p)) = Some (ItsSentinelMutex, ReadLock)"
| "guarded_by (Update (OpLatestSequence E n)) = Some (ItsMutex, WriteLock)"
| "guarded_by (Update (OpAddService E svc u w t)) =
     (case svc of None \<Rightarrow> None | Some _ \<Rightarrow> Some (ItsMutex, WriteLock))"
| "guarded_by (Update (OpAddBackendInfoRequest req)) =
     (case req of None \<Rightarrow> None | Some _ \<Rightarrow> Some (ItsMutex, WriteLock))"
| "guarded_by (Update (OpSetForwarding m a c)) = None"
| "guarded_by (Ask (AskBackendAlive h p)) = Some (ItsSentinelMutex, ReadLock)"
| "guarded_by (Ask q) = Some (ItsMutex, ReadLock)"

lemma queries_only_read [simp]: "guarded_by (Ask q) \<noteq> Some (m, WriteLock)"
  by (cases q) auto

text \<open>\<open>setForwarding\<close> takes no lock: the engine calls it once, before it starts its thread.\<close>

fun from_threads :: "'g table_call \<Rightarrow> bool" where
  "from_threads (Update (OpSetForwarding m a c)) = False"
| "from_threads call = True"

fun adds_service :: "'g table_call \<Rightarrow> bool" where
  "adds_service (Update (OpAddService E svc u w t)) = (svc \<noteq> None)"
| "adds_service call = False"

section \<open>The writers, access by access\<close>

text \<open>
  The loops of \<open>removeBackend\<close> and \<open>latestSequence\<close> visit the maps entry by entry;
  \<open>addService\<close> writes the prefix map and then the list.
\<close>

datatype 'g table_access =
    AddPrefix string backend_service
  | AddToList "'g env" backend_service string f32
  | AddRequest backend_info_request
  | RemoveAt "'g env" string int string nat
  | PruneAt "'g env" int nat
  | PruneRequestsAt int nat

definition remove_at :: "'g platform \<Rightarrow> 'g env \<Rightarrow> string \<Rightarrow> int \<Rightarrow> string \<Rightarrow> nat \<Rightarrow> 'g services \<Rightarrow> 'g services" where
  "remove_at P E h p u k s =
     (case itsServicesByURI s ! k of (uri, entry) \<Rightarrow>
        case remove_from P E h p u entry (itsPrefixMap s) of (entry', pm) \<Rightarrow>
          s\<lparr>itsServicesByURI := (itsServicesByURI s)[k := (uri, entry')], itsPrefixMap := pm\<rparr>)"

definition prune_at :: "'g platform \<Rightarrow> 'g env \<Rightarrow> int \<Rightarrow> nat \<Rightarrow> 'g services \<Rightarrow> 'g services" where
  "prune_at P E n k s =
     (case itsServicesByURI s ! k of (uri, entry) \<Rightarrow>
        s\<lparr>itsServicesByURI := (itsServicesByURI s)[k := (uri, prune_list P E n entry)]\<rparr>)"

definition prune_requests_at :: "int \<Rightarrow> nat \<Rightarrow> 'g services \<Rightarrow> 'g services" where
  "prune_requests_at n k s =
     (case itsBackendInfoRequests s ! k of (name, requestList) \<Rightarrow>
        s\<lparr>itsBackendInfoRequests := (itsBackendInfoRequests s)[k := (name, prune_requests n requestList)]\<rparr>)"

fun make_access :: "'g platform \<Rightarrow> 'g table_access \<Rightarrow> 'g services \<Rightarrow> 'g services" where
  "make_access P (AddPrefix uri svc) s = s\<lparr>itsPrefixMap := addPrefix uri svc (itsPrefixMap s)\<rparr>"
| "make_access P (AddToList E svc uri w) s = s\<lparr>itsServicesByURI := add_to_list P E svc uri w s\<rparr>"
| "make_access P (AddRequest req) s = snd (addBackendInfoRequest (Some req) s)"
| "make_access P (RemoveAt E h p u k) s = remove_at P E h p u k s"
| "make_access P (PruneAt E n k) s = prune_at P E n k s"
| "make_access P (PruneRequestsAt n k) s = prune_requests_at n k s"

lemmas access_defs = remove_at_def prune_at_def prune_requests_at_def

text \<open>What a writer does to the table it finds when it gets the lock.\<close>

fun body :: "'g table_call \<Rightarrow> 'g services \<Rightarrow> 'g table_access list" where
  "body (Update (OpRemoveBackend E h p u)) s = map (RemoveAt E h p u) [0..<length (itsServicesByURI s)]"
| "body (Update (OpLatestSequence E n)) s =
     map (PruneAt E n) [0..<length (itsServicesByURI s)] @
     map (PruneRequestsAt n) [0..<length (itsBackendInfoRequests s)]"
| "body (Update (OpAddService E (Some svc) u w t)) s =
     (if DefinesPrefix svc then [AddPrefix u svc] else []) @ [AddToList E svc u w]"
| "body (Update (OpAddBackendInfoRequest (Some req))) s = [AddRequest req]"
| "body call s = []"

text \<open>What is left after these accesses; \<open>addService\<close> goes on with the sentinels.\<close>

fun finish :: "'g platform \<Rightarrow> 'g table_call \<Rightarrow> 'g services \<Rightarrow> answer \<times> 'g services option" where
  "finish P (Update (OpRemoveBackend E h p u)) s =
     (if \<exists>(uri, theList, f) \<in> set (itsServicesByURI s). theList \<noteq> [] then (Flag True, Some s) else (Nothing, None))"
| "finish P (Update (OpLatestSequence E n)) s = (Flag True, Some s)"
| "finish P (Update (OpAddBackendInfoRequest req)) s = (Flag True, Some s)"
| "finish P call s = perform P call s"

section \<open>The readers: translate, then look up\<close>

fun looks_up :: "'g table_call \<Rightarrow> string option" where
  "looks_up (Update (OpGetService E r)) = Some (getResource r)"
| "looks_up (Ask (AskBackends service full)) = Some service"
| "looks_up (Ask (AskBackendList service)) = Some service"
| "looks_up call = None"

fun look_up :: "'g platform \<Rightarrow> 'g table_call \<Rightarrow> string \<Rightarrow> 'g services \<Rightarrow> answer \<times> 'g services" where
  "look_up P (Update (OpGetService E r)) uri_prefix s =
     (case choose_backend P E r uri_prefix s of (x, s') \<Rightarrow> (Service x, s'))"
| "look_up P (Ask (AskBackends service full)) uri_prefix s = (Report (report_backends service full (''/'' @ uri_prefix) s), s)"
| "look_up P (Ask (AskBackendList service)) uri_prefix s = (Tuples (list_backends (''/'' @ uri_prefix) s), s)"
| "look_up P call uri_prefix s = (Nothing, s)"

lemma look_up_performs:
  assumes "looks_up call = Some uri" and "look_up P call (translate P (itsPrefixMap s) uri) s = (ans, s')"
  shows "perform P call s = (ans, Some s')"
  using assms by (cases call rule: looks_up.cases)
    (auto simp: getService_def backends_def getBackendList_def service_uri_def split: prod.split)

lemma look_up_keeps:
  assumes "look_up P call uri_prefix s = (ans, s')"
  shows "itsPrefixMap s' = itsPrefixMap s" "itsSentinels s' = itsSentinels s"
  using assms by (cases "(P, call, uri_prefix, s)" rule: look_up.cases;
    auto simp: choose_backend_def Let_def split: option.splits prod.splits sum.splits if_splits)+

section \<open>The lists and the sentinels\<close>

text \<open>Everything \<open>itsMutex\<close> guards: the table without its sentinels.\<close>

definition lists_part :: "'g services \<Rightarrow> 'g services" where
  "lists_part s = s\<lparr>itsSentinels := []\<rparr>"

lemma services_eqI: "lists_part s = lists_part s' \<Longrightarrow> itsSentinels s = itsSentinels s' \<Longrightarrow> s = s'"
  by (cases s; cases s') (simp add: lists_part_def)

lemma lists_part_fields [simp]:
  "itsServicesByURI (lists_part s) = itsServicesByURI s"
  "itsBackendInfoRequests (lists_part s) = itsBackendInfoRequests s"
  "itsPrefixMap (lists_part s) = itsPrefixMap s"
  "itsFwdMode (lists_part s) = itsFwdMode s"
  "itsBalancingCoefficient (lists_part s) = itsBalancingCoefficient s"
  "itsCookieName (lists_part s) = itsCookieName s"
  "lists_part (lists_part s) = lists_part s"
  "lists_part (s\<lparr>itsSentinels := x\<rparr>) = lists_part s"
  by (simp_all add: lists_part_def)

lemma lists_part_same:
  assumes "lists_part s = lists_part s'"
  shows "itsServicesByURI s = itsServicesByURI s'" "itsPrefixMap s = itsPrefixMap s'"
    "itsBackendInfoRequests s = itsBackendInfoRequests s'" "itsFwdMode s = itsFwdMode s'"
    "itsBalancingCoefficient s = itsBalancingCoefficient s'" "itsCookieName s = itsCookieName s'"
  using assms by (cases s; cases s'; simp add: lists_part_def)+

lemma lists_partI:
  "itsServicesByURI s = itsServicesByURI s' \<Longrightarrow> itsPrefixMap s = itsPrefixMap s' \<Longrightarrow>
   itsBackendInfoRequests s = itsBackendInfoRequests s' \<Longrightarrow> itsFwdMode s = itsFwdMode s' \<Longrightarrow>
   itsBalancingCoefficient s = itsBalancingCoefficient s' \<Longrightarrow> itsCookieName s = itsCookieName s' \<Longrightarrow>
   lists_part s = lists_part s'"
  by (cases s; cases s') (simp add: lists_part_def)

lemma add_to_list_rest [simp]:
  "add_to_list P E svc u w (s\<lparr>itsPrefixMap := x\<rparr>) = add_to_list P E svc u w s"
  "add_to_list P E svc u w (s\<lparr>itsSentinels := y\<rparr>) = add_to_list P E svc u w s"
  by (simp_all add: add_to_list_def Let_def split: option.split)

lemma access_sentinels [simp]: "itsSentinels (make_access P x s) = itsSentinels s"
  by (cases x) (auto simp: access_defs addBackendInfoRequest_def split: prod.split)

lemma access_lists: "lists_part (make_access P x s) = make_access P x (lists_part s)"
  by (cases x) (auto simp: access_defs lists_part_def addBackendInfoRequest_def add_to_list_def Let_def
      split: prod.split option.split)

lemma fold_access_lists: "lists_part (fold (make_access P) xs s) = fold (make_access P) xs (lists_part s)"
  by (induction xs arbitrary: s) (simp_all add: access_lists)

section \<open>The accesses of a writer make the operation\<close>

text \<open>The table after a writer's operation, whether or not the process survives it.\<close>

fun effect :: "'g platform \<Rightarrow> 'g table_call \<Rightarrow> 'g services \<Rightarrow> 'g services" where
  "effect P (Update (OpRemoveBackend E h p u)) s = snd (removeBackend P E h p u s)"
| "effect P (Update (OpLatestSequence E n)) s = snd (latestSequence P E n s)"
| "effect P (Update (OpAddService E svc u w t)) s = snd (addService P E svc u w t s)"
| "effect P (Update (OpAddBackendInfoRequest req)) s = snd (addBackendInfoRequest req s)"
| "effect P call s = s"

lemma effect_lists: "lists_part (effect P call s) = lists_part (effect P call (lists_part s))"
  by (cases "(P, call, s)" rule: effect.cases)
    (auto simp: removeBackend_def latestSequence_def addService_def addBackendInfoRequest_def
      add_to_list_def lists_part_def Let_def split: option.split prod.split)

lemma effect_sentinels:
  "\<not> adds_service call \<Longrightarrow> itsSentinels (effect P call s) = itsSentinels s"
  by (cases "(P, call, s)" rule: effect.cases)
    (auto simp: removeBackend_def latestSequence_def addService_def addBackendInfoRequest_def Let_def
      split: option.split prod.split)

lemma fold_remove_at:
  "fold (make_access P) (map (RemoveAt E h p u) [length xs..<length xs + length ys])
     (s\<lparr>itsServicesByURI := xs @ ys, itsPrefixMap := pm\<rparr>) =
   (case remove_lists P E h p u ys pm of (ys', pm') \<Rightarrow> s\<lparr>itsServicesByURI := xs @ ys', itsPrefixMap := pm'\<rparr>)"
proof (induction ys arbitrary: xs pm)
  case (Cons y ys)
  obtain uri entry entry' pm' where y: "y = (uri, entry)" "remove_from P E h p u entry pm = (entry', pm')"
    by (metis surj_pair)
  have "[length xs..<length xs + length (y # ys)] = length xs # [length (xs @ [(uri, entry')])..<length (xs @ [(uri, entry')]) + length ys]"
    by (simp add: upt_rec)
  with Cons.IH [of "xs @ [(uri, entry')]" pm'] show ?case
    by (simp add: y remove_at_def split: prod.split)
qed simp

lemma fold_prune_at:
  "fold (make_access P) (map (PruneAt E n) [length xs..<length xs + length ys]) (s\<lparr>itsServicesByURI := xs @ ys\<rparr>) =
   s\<lparr>itsServicesByURI := xs @ omap_update (\<lambda>uri. prune_list P E n) ys\<rparr>"
proof (induction ys arbitrary: xs)
  case (Cons y ys)
  obtain uri entry where y: "y = (uri, entry)" by (cases y)
  have "[length xs..<length xs + length (y # ys)] =
      length xs # [length (xs @ [(uri, prune_list P E n entry)])..<length (xs @ [(uri, prune_list P E n entry)]) + length ys]"
    by (simp add: upt_rec)
  with Cons.IH [of "xs @ [(uri, prune_list P E n entry)]"] show ?case
    by (simp add: y access_defs omap_update_def)
qed (simp add: omap_update_def)

lemma fold_prune_requests_at:
  "fold (make_access P) (map (PruneRequestsAt n) [length xs..<length xs + length ys])
     (s\<lparr>itsBackendInfoRequests := xs @ ys\<rparr>) =
   s\<lparr>itsBackendInfoRequests := xs @ omap_update (\<lambda>name. prune_requests n) ys\<rparr>"
proof (induction ys arbitrary: xs)
  case (Cons y ys)
  obtain name reqs where y: "y = (name, reqs)" by (cases y)
  have "[length xs..<length xs + length (y # ys)] =
      length xs # [length (xs @ [(name, prune_requests n reqs)])..<length (xs @ [(name, prune_requests n reqs)]) + length ys]"
    by (simp add: upt_rec)
  with Cons.IH [of "xs @ [(name, prune_requests n reqs)]"] show ?case
    by (simp add: y access_defs omap_update_def)
qed (simp add: omap_update_def)

lemma fold_latestSequence:
  "fold (make_access P) (body (Update (OpLatestSequence E n)) s) s = snd (latestSequence P E n s)"
proof -
  have "fold (make_access P) (map (PruneAt E n) [0..<length (itsServicesByURI s)]) s =
      s\<lparr>itsServicesByURI := omap_update (\<lambda>uri. prune_list P E n) (itsServicesByURI s)\<rparr>" (is "_ = ?s1")
    using fold_prune_at [of P E n "[]" "itsServicesByURI s" s] by simp
  moreover have "fold (make_access P) (map (PruneRequestsAt n) [0..<length (itsBackendInfoRequests s)]) ?s1 =
      ?s1\<lparr>itsBackendInfoRequests := omap_update (\<lambda>name. prune_requests n) (itsBackendInfoRequests s)\<rparr>"
    using fold_prune_requests_at [of P n "[]" "itsBackendInfoRequests s" ?s1] by simp
  ultimately show ?thesis by (simp add: latestSequence_def prune_requests_def [abs_def])
qed

lemma fold_removeBackend:
  "fold (make_access P) (body (Update (OpRemoveBackend E h p u)) s) s = snd (removeBackend P E h p u s)"
  using fold_remove_at [of P E h p u "[]" "itsServicesByURI s" "itsPrefixMap s" s]
  by (simp add: removeBackend_def Let_def split: prod.split)

lemma body_effect:
  assumes "guarded_by call = Some (m, WriteLock)"
  shows "lists_part (fold (make_access P) (body call s) s) = lists_part (effect P call s)"
  using assms
proof (cases "(P, call, s)" rule: effect.cases)
  case (1 P' E h p u s')
  with fold_removeBackend [of P E h p u s] show ?thesis by simp
next
  case (2 P' E n s')
  with fold_latestSequence [of P E n s] show ?thesis by simp
next
  case (3 P' E svc u w t s')
  with assms show ?thesis
    by (cases svc) (auto simp: addService_def intro: lists_partI)
next
  case (4 P' req s')
  with assms show ?thesis by (cases req) simp_all
qed auto

lemma body_reader: "guarded_by call = Some (m, ReadLock) \<Longrightarrow> body call s = []"
  by (cases "(call, s)" rule: body.cases) auto

text \<open>A writer that has made its accesses ends as the whole operation does.\<close>

lemma finish_performs:
  assumes "guarded_by call = Some (m, WriteLock)" and "\<not> adds_service call"
    and "lists_part c = lists_part (effect P call s)" and "itsSentinels c = itsSentinels s"
  shows "finish P call c = perform P call s"
proof -
  have c: "c = effect P call s"
    by (rule services_eqI) (simp_all add: assms(3,4) effect_sentinels [OF assms(2)])
  from assms(1,2) show ?thesis
  proof (cases "(P, call, s)" rule: effect.cases)
    case (1 P' E h p u s')
    then show ?thesis by (auto simp: c removeBackend_def Let_def split: prod.split)
  next
    case (2 P' E n s')
    then show ?thesis by (simp add: c latestSequence_def)
  next
    case (4 P' req s')
    with assms(1) show ?thesis by (cases req) (simp_all add: c addBackendInfoRequest_def)
  qed auto
qed

text \<open>The last section of \<open>addService\<close>, under both mutexes.\<close>

fun with_sentinel :: "'g table_call \<Rightarrow> 'g services \<Rightarrow> 'g services" where
  "with_sentinel (Update (OpAddService E (Some svc) u w t)) s =
     s\<lparr>itsSentinels := add_sentinel (backend_id (service_key svc)) t (itsSentinels s)\<rparr>"
| "with_sentinel call s = s"

lemma with_sentinel_performs:
  assumes "adds_service call" and "lists_part c = lists_part (effect P call s)"
    and "itsSentinels c = itsSentinels s"
  shows "perform P call s = (Flag True, Some (with_sentinel call c))"
proof -
  obtain E svc u w t where call: "call = Update (OpAddService E (Some svc) u w t)"
    using assms(1) by (cases call rule: adds_service.cases) auto
  have "with_sentinel call c = snd (addService P E (Some svc) u w t s)"
    by (rule services_eqI) (use assms(2,3) in \<open>simp_all add: call addService_def\<close>)
  then show ?thesis by (simp add: call addService_def)
qed

text \<open>A call that finds nothing to do returns before it takes a lock.\<close>

lemma unguarded_performs:
  "guarded_by call = None \<Longrightarrow> from_threads call \<Longrightarrow> perform P call s = (Flag False, Some s)"
  by (cases call rule: guarded_by.cases)
    (auto simp: addService_def addBackendInfoRequest_def split: option.splits)

text \<open>The sentinel calls leave the lists alone, and the other way round.\<close>

lemma sentinel_call_performs:
  assumes "guarded_by call = Some (ItsSentinelMutex, a)"
  shows "finish P call c = perform P call c" "a = ReadLock" "looks_up call = None" "\<not> adds_service call"
    "itsSentinels c = itsSentinels s \<Longrightarrow> perform P call c = (ans, Some c') \<Longrightarrow>
       \<exists>s'. perform P call s = (ans, Some s') \<and> itsSentinels c' = itsSentinels s' \<and>
         lists_part c' = lists_part c \<and> lists_part s' = lists_part s"
    "\<exists>ans c'. perform P call c = (ans, Some c')"
  using assms by (cases call rule: guarded_by.cases;
    auto simp: setBackendAlive_def signalBackendConnection_def queryBackendAlive_def Let_def lists_part_def
      split: option.splits)+

lemma reader_performs:
  assumes "guarded_by call = Some (ItsMutex, ReadLock)" and "looks_up call = None"
    and "lists_part c = lists_part s"
  shows "finish P call c = (ans, x) \<Longrightarrow> x = Some c \<and> perform P call s = (ans, Some s)"
  using assms(1,2) lists_part_same [OF assms(3)] by (cases call rule: guarded_by.cases)
    (auto simp: getInfoRequestBackendList_def getInfoRequestNames_def services_status_def split: option.splits)

end
