(* ===== verification/Locking.thy ===== *)
theory Locking
  imports Table_Calls
begin

text \<open>
  The threads that share the routing table: the reactor's threads, which forward requests and
  report, and the engine's own thread, which registers replies and prunes. Each call is taken
  apart into its accesses to the table, made one at a time under the read-write locks the code
  takes, in any interleaving. Whatever the threads do, they do what a sequence of whole
  operations does, with the same answers; and every call comes to its end.
\<close>

section \<open>The threads\<close>

datatype 'g activity =
    Outside
  | Called "'g table_call"                     \<comment> \<open>before its first lock\<close>
  | Inside "'g table_call" "'g table_access list" \<comment> \<open>holds it, with these accesses to make\<close>
  | Translated "'g table_call" string          \<comment> \<open>a reader that has asked the prefix map\<close>
  | AtSentinels "'g table_call"                \<comment> \<open>\<open>addService\<close>, holding both mutexes\<close>
  | Returning "'g table_call" answer           \<comment> \<open>all locks given back\<close>

fun holds :: "'g activity \<Rightarrow> mutex \<Rightarrow> access option" where
  "holds (Inside call xs) m = (case guarded_by call of Some (m', a) \<Rightarrow> if m = m' then Some a else None | None \<Rightarrow> None)"
| "holds (Translated call p) m = (if m = ItsMutex then Some ReadLock else None)"
| "holds (AtSentinels call) m = Some WriteLock"
| "holds t m = None"

definition conflict :: "access option \<Rightarrow> access option \<Rightarrow> bool" where
  "conflict a b \<longleftrightarrow> (a = Some WriteLock \<and> b \<noteq> None) \<or> (b = Some WriteLock \<and> a \<noteq> None)"

text \<open>Thread \<open>i\<close> may take the mutex if no other thread holds it in a conflicting way.\<close>

definition grants :: "'g activity list \<Rightarrow> nat \<Rightarrow> mutex \<Rightarrow> access \<Rightarrow> bool" where
  "grants ts i m a \<longleftrightarrow>
     list_all (\<lambda>j. j = i \<or> \<not> conflict (Some a) (holds (ts ! j) m)) [0..<length ts]"

datatype 'g event = Call nat "'g table_call" | Return nat answer

text \<open>The shared table, gone when the process is, and what each thread is doing.\<close>

type_synonym 'g threads = "'g services option \<times> 'g activity list"

inductive thread_step :: "'g platform \<Rightarrow> 'g event option \<Rightarrow> 'g threads \<Rightarrow> 'g threads \<Rightarrow> bool"
  for P :: "'g platform" where
  calls:
    "i < length ts \<Longrightarrow> ts ! i = Outside \<Longrightarrow> from_threads call \<Longrightarrow>
       thread_step P (Some (Call i call)) (Some s, ts) (Some s, ts[i := Called call])"
| nothing_to_do:
    "i < length ts \<Longrightarrow> ts ! i = Called call \<Longrightarrow> guarded_by call = None \<Longrightarrow>
       thread_step P None (Some s, ts) (Some s, ts[i := Returning call (Flag False)])"
| locks:
    "i < length ts \<Longrightarrow> ts ! i = Called call \<Longrightarrow> guarded_by call = Some (m, a) \<Longrightarrow> grants ts i m a \<Longrightarrow>
       thread_step P None (Some s, ts) (Some s, ts[i := Inside call (body call s)])"
| accesses:
    "i < length ts \<Longrightarrow> ts ! i = Inside call (x # xs) \<Longrightarrow>
       thread_step P None (Some s, ts) (Some (make_access P x s), ts[i := Inside call xs])"
| translates:
    "i < length ts \<Longrightarrow> ts ! i = Inside call [] \<Longrightarrow> looks_up call = Some uri \<Longrightarrow>
       thread_step P None (Some s, ts) (Some s, ts[i := Translated call (translate P (itsPrefixMap s) uri)])"
| looks_it_up:
    "i < length ts \<Longrightarrow> ts ! i = Translated call uri_prefix \<Longrightarrow> look_up P call uri_prefix s = (ans, s') \<Longrightarrow>
       thread_step P None (Some s, ts) (Some s', ts[i := Returning call ans])"
| locks_sentinels:
    "i < length ts \<Longrightarrow> ts ! i = Inside call [] \<Longrightarrow> adds_service call \<Longrightarrow>
       grants ts i ItsSentinelMutex WriteLock \<Longrightarrow>
       thread_step P None (Some s, ts) (Some s, ts[i := AtSentinels call])"
| renews_sentinel:
    "i < length ts \<Longrightarrow> ts ! i = AtSentinels call \<Longrightarrow>
       thread_step P None (Some s, ts) (Some (with_sentinel call s), ts[i := Returning call (Flag True)])"
| finishes:
    "i < length ts \<Longrightarrow> ts ! i = Inside call [] \<Longrightarrow> looks_up call = None \<Longrightarrow> \<not> adds_service call \<Longrightarrow>
       finish P call s = (ans, s') \<Longrightarrow>
       thread_step P None (Some s, ts) (s', ts[i := Returning call ans])"
| returns:
    "i < length ts \<Longrightarrow> ts ! i = Returning call ans \<Longrightarrow>
       thread_step P (Some (Return i ans)) (Some s, ts) (Some s, ts[i := Outside])"

section \<open>The specification: whole operations\<close>

datatype 'g call_status = Idle | Pending "'g table_call" | Answered "'g table_call" answer

inductive atomic_step ::
  "'g platform \<Rightarrow> 'g event option \<Rightarrow> 'g services option \<times> 'g call_status list \<Rightarrow>
     'g services option \<times> 'g call_status list \<Rightarrow> bool"
  for P :: "'g platform" where
  atomic_call:
    "i < length st \<Longrightarrow> st ! i = Idle \<Longrightarrow> from_threads call \<Longrightarrow>
       atomic_step P (Some (Call i call)) (Some s, st) (Some s, st[i := Pending call])"
| atomic_perform:
    "i < length st \<Longrightarrow> st ! i = Pending call \<Longrightarrow> perform P call s = (ans, s') \<Longrightarrow>
       atomic_step P None (Some s, st) (s', st[i := Answered call ans])"
| atomic_return:
    "i < length st \<Longrightarrow> st ! i = Answered call ans \<Longrightarrow>
       atomic_step P (Some (Return i ans)) (Some s, st) (Some s, st[i := Idle])"

fun status :: "'g activity \<Rightarrow> 'g call_status" where
  "status Outside = Idle"
| "status (Called call) = Pending call"
| "status (Inside call xs) = Pending call"
| "status (Translated call p) = Pending call"
| "status (AtSentinels call) = Pending call"
| "status (Returning call ans) = Answered call ans"

section \<open>The simulation\<close>

text \<open>No two threads hold a mutex in conflicting ways.\<close>

definition locks_ok :: "'g activity list \<Rightarrow> bool" where
  "locks_ok ts \<longleftrightarrow>
     (\<forall>i < length ts. \<forall>j < length ts. i \<noteq> j \<longrightarrow> (\<forall>m. \<not> conflict (holds (ts ! i) m) (holds (ts ! j) m)))"

text \<open>
  How far a thread is with its call: \<open>c\<close> is the table the threads share, \<open>s\<close> the table on
  which the calls performed so far were whole operations.
\<close>

fun thread_ok :: "'g platform \<Rightarrow> 'g services \<Rightarrow> 'g services \<Rightarrow> 'g activity \<Rightarrow> bool" where
  "thread_ok P c s (Called call) \<longleftrightarrow> from_threads call"
| "thread_ok P c s (Inside call xs) \<longleftrightarrow>
     from_threads call \<and>
     (case guarded_by call of None \<Rightarrow> False
      | Some (m, ReadLock) \<Rightarrow> xs = []
      | Some (m, WriteLock) \<Rightarrow> lists_part (fold (make_access P) xs c) = lists_part (effect P call s))"
| "thread_ok P c s (Translated call p) \<longleftrightarrow>
     (\<exists>uri. looks_up call = Some uri \<and> p = translate P (itsPrefixMap c) uri)"
| "thread_ok P c s (AtSentinels call) \<longleftrightarrow> adds_service call \<and> lists_part c = lists_part (effect P call s)"
| "thread_ok P c s t \<longleftrightarrow> True"

definition writing :: "'g activity list \<Rightarrow> bool" where
  "writing ts \<longleftrightarrow> (\<exists>i < length ts. holds (ts ! i) ItsMutex = Some WriteLock)"

fun implements :: "'g platform \<Rightarrow> 'g threads \<Rightarrow> 'g services option \<times> 'g call_status list \<Rightarrow> bool" where
  "implements P (Some c, ts) (Some s, st) \<longleftrightarrow>
     st = map status ts \<and> locks_ok ts \<and> itsSentinels c = itsSentinels s \<and>
     (\<forall>i < length ts. thread_ok P c s (ts ! i)) \<and> (\<not> writing ts \<longrightarrow> lists_part c = lists_part s)"
| "implements P (None, ts) (None, st) \<longleftrightarrow> True"
| "implements P x y \<longleftrightarrow> False"

lemma locks_ok_update:
  assumes "locks_ok ts" and "i < length ts"
    and "\<And>m j. j < length ts \<Longrightarrow> j \<noteq> i \<Longrightarrow> \<not> conflict (holds t m) (holds (ts ! j) m)"
  shows "locks_ok (ts[i := t])"
proof -
  have sym: "conflict a b = conflict b a" for a b by (auto simp: conflict_def)
  show ?thesis using assms unfolding locks_ok_def by (auto simp: nth_list_update sym)
qed

lemma locks_ok_keeps:
  assumes "locks_ok ts" and "i < length ts" and "\<And>m. holds t m = holds (ts ! i) m \<or> holds t m = None"
  shows "locks_ok (ts[i := t])"
proof (rule locks_ok_update [OF assms(1,2)])
  fix m j assume "j < length ts" "j \<noteq> i"
  then have "\<not> conflict (holds (ts ! i) m) (holds (ts ! j) m)" using assms(1,2) by (simp add: locks_ok_def)
  with assms(3) [of m] show "\<not> conflict (holds t m) (holds (ts ! j) m)" by (auto simp: conflict_def)
qed

lemma write_locks_lists: "guarded_by call = Some (m, WriteLock) \<Longrightarrow> m = ItsMutex"
  by (cases m) (auto dest: sentinel_call_performs(2))

text \<open>A thread that holds nothing of \<open>itsMutex\<close> does not mind the lists being changed.\<close>

lemma thread_ok_elsewhere:
  "holds t ItsMutex = None \<Longrightarrow> thread_ok P c s t \<Longrightarrow> thread_ok P c' s' t"
  by (cases t) (auto split: if_splits option.splits prod.splits access.splits dest: write_locks_lists)

lemma thread_ok_same_lists:
  assumes "lists_part c' = lists_part c" and "lists_part s' = lists_part s" and "thread_ok P c s t"
  shows "thread_ok P c' s' t"
proof -
  have "lists_part (fold (make_access P) xs c') = lists_part (fold (make_access P) xs c)" for xs
    using assms(1) by (simp add: fold_access_lists)
  moreover have "lists_part (effect P call s') = lists_part (effect P call s)" for call
    using assms(2) effect_lists by metis
  ultimately show ?thesis using assms lists_part_same(2) [OF assms(1)] by (cases t) (auto split: option.splits prod.splits access.splits)
qed

lemma thread_ok_reading:
  assumes "holds t ItsMutex \<noteq> Some WriteLock" and "thread_ok P c s t"
    and "itsPrefixMap c' = itsPrefixMap c"
  shows "thread_ok P c' s' t"
  using assms by (cases t) (auto split: if_splits option.splits prod.splits access.splits dest: write_locks_lists)

lemma thread_ok_writer:
  "thread_ok P c s (Inside call (x # xs)) \<Longrightarrow>
     guarded_by call = Some (ItsMutex, WriteLock) \<and> thread_ok P (make_access P x c) s (Inside call xs)"
  by (auto split: option.splits prod.splits access.splits dest: write_locks_lists)

lemma looks_up_reads: "looks_up call = Some uri \<Longrightarrow> guarded_by call = Some (ItsMutex, ReadLock)"
  by (cases call rule: looks_up.cases) auto

lemma adding_writes: "adds_service call \<Longrightarrow> guarded_by call = Some (ItsMutex, WriteLock)"
  by (cases call rule: adds_service.cases) auto

subsection \<open>One thread moves\<close>

lemma writing_same:
  assumes "holds t ItsMutex = holds (ts ! i) ItsMutex"
  shows "writing (ts[i := t]) = writing ts"
proof -
  have "holds (ts[i := t] ! j) ItsMutex = holds (ts ! j) ItsMutex" if "j < length ts" for j
    using assms that by (cases "i = j") simp_all
  then show ?thesis by (auto simp: writing_def)
qed

lemma writing_given_back:
  assumes "\<not> writing (ts[i := t])" and "holds (ts ! i) ItsMutex \<noteq> Some WriteLock"
  shows "\<not> writing ts"
proof
  assume "writing ts"
  then obtain j where j: "j < length ts" "holds (ts ! j) ItsMutex = Some WriteLock" by (auto simp: writing_def)
  with assms(2) have "i \<noteq> j" by auto
  with j have "writing (ts[i := t])" by (auto simp: writing_def intro!: exI [of _ j])
  with assms(1) show False ..
qed

text \<open>While one thread holds \<open>itsMutex\<close>, no other writes; while one writes, no other holds it.\<close>

lemma alone:
  assumes "locks_ok ts" and "i < length ts" and "holds (ts ! i) ItsMutex = Some WriteLock"
    and "j < length ts" and "j \<noteq> i"
  shows "holds (ts ! j) ItsMutex = None"
proof -
  from assms(1,2,4,5) have "\<not> conflict (holds (ts ! i) ItsMutex) (holds (ts ! j) ItsMutex)"
    by (simp add: locks_ok_def)
  with assms(3) show ?thesis by (simp add: conflict_def)
qed

lemma reading_not_writing:
  assumes "locks_ok ts" and "i < length ts" and "holds (ts ! i) ItsMutex = Some ReadLock"
  shows "\<not> writing ts"
proof
  assume "writing ts"
  then obtain j where j: "j < length ts" "holds (ts ! j) ItsMutex = Some WriteLock" by (auto simp: writing_def)
  with assms(3) have "i \<noteq> j" by auto
  from alone [OF assms(1) j assms(2) this] assms(3) show False by simp
qed

lemma granted:
  "grants ts i m a \<Longrightarrow> j < length ts \<Longrightarrow> j \<noteq> i \<Longrightarrow> \<not> conflict (Some a) (holds (ts ! j) m)"
  by (auto simp: grants_def list_all_iff)

text \<open>Thread \<open>i\<close> moves on: what is to be shown of the others, the locks and the tables.\<close>

lemma implements_move:
  assumes "implements P (Some c, ts) (Some s, st)" and "i < length ts" and "locks_ok (ts[i := t])"
    and "thread_ok P c' s' t" and "\<And>j. j < length ts \<Longrightarrow> j \<noteq> i \<Longrightarrow> thread_ok P c' s' (ts ! j)"
    and "itsSentinels c' = itsSentinels s'" and "\<not> writing (ts[i := t]) \<Longrightarrow> lists_part c' = lists_part s'"
  shows "implements P (Some c', ts[i := t]) (Some s', st[i := status t])"
  using assms by (auto simp: map_update nth_list_update)

text \<open>It moves on and leaves the tables as they are.\<close>

lemma implements_stays:
  assumes "implements P (Some c, ts) (Some s, st)" and "i < length ts" and "locks_ok (ts[i := t])"
    and "thread_ok P c s t" and "\<not> writing (ts[i := t]) \<Longrightarrow> lists_part c = lists_part s"
  shows "implements P (Some c, ts[i := t]) (Some s, st[i := status t])"
  by (rule implements_move [OF assms(1-4)]) (use assms(1,5) in simp_all)

lemma same_status:
  "implements P (Some c, ts) (Some s, st) \<Longrightarrow> i < length ts \<Longrightarrow> status t = status (ts ! i) \<Longrightarrow>
     st[i := status t] = st"
  by (simp add: map_update [symmetric] list_update_same_conv)

lemma implementsD:
  assumes "implements P (Some c, ts) (Some s, st)"
  shows "locks_ok ts" "itsSentinels c = itsSentinels s" "st = map status ts"
    "i < length ts \<Longrightarrow> thread_ok P c s (ts ! i)" "\<not> writing ts \<Longrightarrow> lists_part c = lists_part s"
  using assms by simp_all

declare implements.simps [simp del]

subsection \<open>The steps\<close>

lemma takes_first_lock:
  assumes "implements P (Some c, ts) (Some s, st)" and "i < length ts" and "ts ! i = Called call"
    and "guarded_by call = Some (m, a)" and "grants ts i m a"
  shows "implements P (Some c, ts[i := Inside call (body call c)]) (Some s, st)"
proof -
  let ?t = "Inside call (body call c)"
  note R = implementsD [OF assms(1)]
  have others: "\<not> conflict (holds ?t m') (holds (ts ! j) m')" if "j < length ts" "j \<noteq> i" for m' j
    using granted [OF assms(5) that] assms(4) by (auto simp: conflict_def)
  have idle: "holds (ts ! i) m' = None" for m' by (simp add: assms(3))
  have free: "\<not> writing ts" if "m = ItsMutex" "a = WriteLock"
  proof
    assume "writing ts"
    then obtain j where j: "j < length ts" "holds (ts ! j) ItsMutex = Some WriteLock" by (auto simp: writing_def)
    with idle have "j \<noteq> i" by auto
    from granted [OF assms(5) j(1) this] j(2) that show False by (simp add: conflict_def)
  qed
  have "thread_ok P c s ?t"
  proof (cases a)
    case ReadLock
    with R(4) [OF assms(2)] assms(3,4) show ?thesis by (simp add: body_reader)
  next
    case WriteLock
    with assms(4) have "m = ItsMutex" by (auto dest: write_locks_lists)
    with free WriteLock have "lists_part c = lists_part s" using R(5) by simp
    then have "lists_part (effect P call c) = lists_part (effect P call s)" using effect_lists by metis
    with body_effect [of call m P c] R(4) [OF assms(2)] assms(3,4) WriteLock show ?thesis by simp
  qed
  moreover have "locks_ok (ts[i := ?t])" by (rule locks_ok_update [OF R(1) assms(2) others])
  moreover have "lists_part c = lists_part s" if "\<not> writing (ts[i := ?t])"
    using R(5) writing_given_back [OF that] idle by simp
  ultimately have "implements P (Some c, ts[i := ?t]) (Some s, st[i := status ?t])"
    using implements_stays [OF assms(1,2)] by blast
  with same_status [OF assms(1,2), of ?t] assms(3) show ?thesis by simp
qed

lemma takes_sentinel_lock:
  assumes "implements P (Some c, ts) (Some s, st)" and "i < length ts" and "ts ! i = Inside call []"
    and "adds_service call" and "grants ts i ItsSentinelMutex WriteLock"
  shows "implements P (Some c, ts[i := AtSentinels call]) (Some s, st)"
proof -
  let ?t = "AtSentinels call"
  note R = implementsD [OF assms(1)] and g = adding_writes [OF assms(4)]
  have mine: "holds (ts ! i) ItsMutex = Some WriteLock" using assms(3) g by simp
  have "\<not> conflict (holds ?t m) (holds (ts ! j) m)" if "j < length ts" "j \<noteq> i" for m j
    using granted [OF assms(5) that] alone [OF R(1) assms(2) mine that] by (cases m) (auto simp: conflict_def)
  then have "locks_ok (ts[i := ?t])" by (rule locks_ok_update [OF R(1) assms(2)])
  moreover have "thread_ok P c s ?t" using R(4) [OF assms(2)] assms(3,4) g by simp
  moreover have "writing (ts[i := ?t])"
    using assms(2) by (auto simp: writing_def intro!: exI [of _ i])
  ultimately have "implements P (Some c, ts[i := ?t]) (Some s, st[i := status ?t])"
    using implements_stays [OF assms(1,2)] by blast
  with same_status [OF assms(1,2), of ?t] assms(3) show ?thesis by simp
qed

lemma makes_access:
  assumes "implements P (Some c, ts) (Some s, st)" and "i < length ts" and "ts ! i = Inside call (x # xs)"
  shows "implements P (Some (make_access P x c), ts[i := Inside call xs]) (Some s, st)"
proof -
  let ?t = "Inside call xs"
  note R = implementsD [OF assms(1)]
  have t: "guarded_by call = Some (ItsMutex, WriteLock)" "thread_ok P (make_access P x c) s ?t"
    using thread_ok_writer R(4) [OF assms(2)] assms(3) by (metis, metis)
  have same: "holds ?t m = holds (ts ! i) m" for m by (simp add: assms(3))
  have mine: "holds (ts ! i) ItsMutex = Some WriteLock" using t(1) by (simp add: assms(3))
  have "implements P (Some (make_access P x c), ts[i := ?t]) (Some s, st[i := status ?t])"
  proof (rule implements_move [OF assms(1,2) _ t(2)])
    show "locks_ok (ts[i := ?t])" by (rule locks_ok_keeps [OF R(1) assms(2)]) (simp only: same simp_thms)
    show "thread_ok P (make_access P x c) s (ts ! j)" if "j < length ts" "j \<noteq> i" for j
      using thread_ok_elsewhere [OF alone [OF R(1) assms(2) mine that] R(4) [OF that(1)]] .
    show "itsSentinels (make_access P x c) = itsSentinels s" by (simp add: R(2))
    have "writing ts" using mine assms(2) by (auto simp: writing_def)
    then show "lists_part (make_access P x c) = lists_part s" if "\<not> writing (ts[i := ?t])"
      using that writing_same [of ?t ts i] same by simp
  qed
  with same_status [OF assms(1,2), of ?t] assms(3) show ?thesis by simp
qed

text \<open>A thread that holds \<open>itsMutex\<close> for writing replaces the table and gives its locks back.\<close>

lemma writer_commits:
  assumes "implements P (Some c, ts) (Some s, st)" and "i < length ts"
    and "holds (ts ! i) ItsMutex = Some WriteLock"
  shows "implements P (Some c', ts[i := Returning call ans]) (Some c', st[i := Answered call ans])"
proof -
  note R = implementsD [OF assms(1)]
  have "implements P (Some c', ts[i := Returning call ans]) (Some c', st[i := status (Returning call ans)])"
  proof (rule implements_move [OF assms(1,2)])
    show "locks_ok (ts[i := Returning call ans])" by (rule locks_ok_keeps [OF R(1) assms(2)]) simp
    show "thread_ok P c' c' (ts ! j)" if "j < length ts" "j \<noteq> i" for j
      using thread_ok_elsewhere [OF alone [OF R(1) assms(2,3) that] R(4) [OF that(1)]] .
  qed simp_all
  then show ?thesis by simp
qed

text \<open>A reader answers from the table and gives its lock back; only forwarders may have moved.\<close>

lemma reader_commits:
  assumes "implements P (Some c, ts) (Some s, st)" and "i < length ts"
    and "holds (ts ! i) ItsMutex = Some ReadLock" and "itsPrefixMap c' = itsPrefixMap c"
  shows "c = s" and "implements P (Some c', ts[i := Returning call ans]) (Some c', st[i := Answered call ans])"
proof -
  note R = implementsD [OF assms(1)]
  have quiet: "\<not> writing ts" by (rule reading_not_writing [OF R(1) assms(2,3)])
  then show "c = s" using R(5) R(2) by (simp add: services_eqI)
  have "implements P (Some c', ts[i := Returning call ans]) (Some c', st[i := status (Returning call ans)])"
  proof (rule implements_move [OF assms(1,2)])
    show "locks_ok (ts[i := Returning call ans])" by (rule locks_ok_keeps [OF R(1) assms(2)]) simp
    show "thread_ok P c' c' (ts ! j)" if "j < length ts" "j \<noteq> i" for j
      by (rule thread_ok_reading [OF _ R(4) [OF that(1)] assms(4)]) (use quiet that(1) in \<open>auto simp: writing_def\<close>)
  qed simp_all
  then show "implements P (Some c', ts[i := Returning call ans]) (Some c', st[i := Answered call ans])" by simp
qed

text \<open>A call on the sentinels answers while others read or write the lists.\<close>

lemma sentinel_commits:
  assumes "implements P (Some c, ts) (Some s, st)" and "i < length ts" and "ts ! i = Inside call []"
    and "guarded_by call = Some (ItsSentinelMutex, a)" and "finish P call c = (ans, c'')"
  shows "\<exists>c' s'. c'' = Some c' \<and> perform P call s = (ans, Some s') \<and>
     implements P (Some c', ts[i := Returning call ans]) (Some s', st[i := Answered call ans])"
proof -
  note R = implementsD [OF assms(1)] and S = sentinel_call_performs [OF assms(4)]
  from S(6) S(1) assms(5) obtain c' where c': "perform P call c = (ans, Some c')" "c'' = Some c'"
    by (metis prod.inject)
  from S(5) [OF R(2) c'(1)] obtain s' where s': "perform P call s = (ans, Some s')"
    "itsSentinels c' = itsSentinels s'" "lists_part c' = lists_part c" "lists_part s' = lists_part s" by auto
  have "implements P (Some c', ts[i := Returning call ans]) (Some s', st[i := status (Returning call ans)])"
  proof (rule implements_move [OF assms(1,2)])
    show "locks_ok (ts[i := Returning call ans])" by (rule locks_ok_keeps [OF R(1) assms(2)]) simp
    show "thread_ok P c' s' (ts ! j)" if "j < length ts" "j \<noteq> i" for j
      by (rule thread_ok_same_lists [OF s'(3,4) R(4) [OF that(1)]])
    have "writing (ts[i := Returning call ans]) = writing ts"
      by (rule writing_same) (simp add: assms(3,4))
    then show "lists_part c' = lists_part s'" if "\<not> writing (ts[i := Returning call ans])"
      using that R(5) s'(3,4) by simp
  qed (simp_all add: s'(2))
  with c'(2) s'(1) show ?thesis by simp
qed

lemma call_finishes:
  assumes "implements P (Some c, ts) (Some s, st)" and "i < length ts" and "ts ! i = Inside call []"
    and "looks_up call = None" and "\<not> adds_service call" and "finish P call c = (ans, c'')"
  shows "\<exists>s'. perform P call s = (ans, s') \<and>
     implements P (c'', ts[i := Returning call ans]) (s', st[i := Answered call ans])"
proof -
  note R = implementsD [OF assms(1)]
  have ok: "thread_ok P c s (Inside call [])" using R(4) [OF assms(2)] assms(3) by simp
  then obtain m a where g: "guarded_by call = Some (m, a)" by (auto split: option.splits)
  show ?thesis
  proof (cases m)
    case ItsSentinelMutex
    with sentinel_commits [OF assms(1-3) _ assms(6)] g show ?thesis by blast
  next
    case ItsMutex
    then have mine: "holds (ts ! i) ItsMutex = Some a" by (simp add: assms(3) g)
    show ?thesis
    proof (cases a)
      case ReadLock
      note commit = reader_commits [OF assms(1,2) mine [unfolded ReadLock] refl]
      have "c'' = Some c" "perform P call s = (ans, Some s)"
        using reader_performs [OF g [unfolded ItsMutex ReadLock] assms(4) _ assms(6)] commit(1) by blast+
      with commit show ?thesis by auto
    next
      case WriteLock
      have "perform P call s = (ans, c'')"
        using finish_performs [OF g [unfolded WriteLock] assms(5) _ R(2)] ok g WriteLock assms(6) by simp
      with writer_commits [OF assms(1,2) mine [unfolded WriteLock]] show ?thesis by (cases c'') (auto simp: implements.simps(2))
    qed
  qed
qed

text \<open>Every step of a thread is a step of the specification with the same event, or none.\<close>

interpretation locking: forward_simulation "thread_step P" "atomic_step P" "implements P" for P :: "'g platform"
proof
  fix x a and l :: "'g event option" and x'
  assume impl: "implements P x a" and step: "thread_step P l x x'"
  obtain c ts where c: "x = (Some c, ts)" using step by (cases rule: thread_step.cases) blast+
  obtain s st where a: "a = (Some s, st)" using impl unfolding c by (cases a; cases "fst a") (auto simp: implements.simps)
  note x = c a and R = impl [unfolded c a]
  note R' = implementsD [OF R]
  from step [unfolded x(1)]
  show "(l = None \<and> implements P x' a) \<or> (\<exists>a'. atomic_step P l a a' \<and> implements P x' a')"
  proof cases
    case (calls i call)
    have "implements P (Some c, ts[i := Called call]) (Some s, st[i := status (Called call)])"
      by (rule implements_stays [OF R])
        (use calls R'(5) in \<open>auto intro!: locks_ok_keeps [OF R'(1)] simp: writing_same\<close>)
    moreover have "atomic_step P l a (Some s, st[i := Pending call])"
      unfolding x(2) calls(1) by (rule atomic_call) (use calls R'(3) in auto)
    ultimately show ?thesis using calls(2) by auto
  next
    case (nothing_to_do i call)
    have "implements P (Some c, ts[i := Returning call (Flag False)]) (Some s, st[i := status (Returning call (Flag False))])"
      by (rule implements_stays [OF R])
        (use nothing_to_do R'(5) in \<open>auto intro!: locks_ok_keeps [OF R'(1)] simp: writing_same\<close>)
    moreover have "atomic_step P l a (Some s, st[i := Answered call (Flag False)])"
      unfolding x(2) nothing_to_do(1)
      by (rule atomic_perform)
        (use nothing_to_do R'(3) R'(4) [OF nothing_to_do(3)] in \<open>auto simp: unguarded_performs\<close>)
    ultimately show ?thesis using nothing_to_do(2) by auto
  next
    case (locks i call m b)
    from takes_first_lock [OF R locks(3-6)] show ?thesis using locks(1,2) x(2) by simp
  next
    case (accesses i call y ys)
    from makes_access [OF R accesses(3,4)] show ?thesis using accesses(1,2) x(2) by simp
  next
    case (translates i call uri)
    let ?t = "Translated call (translate P (itsPrefixMap c) uri)"
    have "implements P (Some c, ts[i := ?t]) (Some s, st[i := status ?t])"
      by (rule implements_stays [OF R])
        (use translates R'(5) looks_up_reads [OF translates(5)] in \<open>auto intro!: locks_ok_keeps [OF R'(1)] simp: writing_same\<close>)
    with same_status [OF R translates(3), of ?t] translates show ?thesis using x(2) by simp
  next
    case (looks_it_up i call uri_prefix ans c')
    have reads: "holds (ts ! i) ItsMutex = Some ReadLock" by (simp add: looks_it_up(4))
    from look_up_keeps(1) [OF looks_it_up(5)] have same: "itsPrefixMap c' = itsPrefixMap c" .
    note commit = reader_commits [OF R looks_it_up(3) reads same]
    obtain uri where "looks_up call = Some uri" "uri_prefix = translate P (itsPrefixMap c) uri"
      using R'(4) [OF looks_it_up(3)] looks_it_up(4) by auto
    with looks_it_up(5) have "perform P call s = (ans, Some c')"
      using look_up_performs commit(1) by blast
    then have "atomic_step P l a (Some c', st[i := Answered call ans])"
      unfolding x(2) looks_it_up(1) by (intro atomic_perform) (use looks_it_up R'(3) in auto)
    with commit(2) [of call ans] show ?thesis using looks_it_up(2) by auto
  next
    case (locks_sentinels i call)
    from takes_sentinel_lock [OF R locks_sentinels(3-6)] show ?thesis using locks_sentinels(1,2) x(2) by simp
  next
    case (renews_sentinel i call)
    have "perform P call s = (Flag True, Some (with_sentinel call c))"
      by (rule with_sentinel_performs) (use R'(2) R'(4) [OF renews_sentinel(3)] renews_sentinel(4) in simp_all)
    then have "atomic_step P l a (Some (with_sentinel call c), st[i := Answered call (Flag True)])"
      unfolding x(2) renews_sentinel(1) by (intro atomic_perform) (use renews_sentinel R'(3) in auto)
    with writer_commits [OF R renews_sentinel(3), of "with_sentinel call c" call "Flag True"]
    show ?thesis using renews_sentinel(2,4) by auto
  next
    case (finishes i call ans c'')
    from call_finishes [OF R finishes(3-7)] obtain s' where s': "perform P call s = (ans, s')"
      "implements P (c'', ts[i := Returning call ans]) (s', st[i := Answered call ans])" by blast
    have "atomic_step P l a (s', st[i := Answered call ans])"
      unfolding x(2) finishes(1) by (rule atomic_perform [OF _ _ s'(1)]) (use finishes R'(3) in auto)
    with s'(2) show ?thesis using finishes(2) by auto
  next
    case (returns i call ans)
    have "implements P (Some c, ts[i := Outside]) (Some s, st[i := status Outside])"
      by (rule implements_stays [OF R])
        (use returns R'(5) in \<open>auto intro!: locks_ok_keeps [OF R'(1)] simp: writing_same\<close>)
    moreover have "atomic_step P l a (Some s, st[i := Idle])"
      unfolding x(2) returns(1) by (rule atomic_return) (use returns R'(3) in auto)
    ultimately show ?thesis using returns(2) by auto
  qed
qed

end
