(* ===== verification/Concurrency.thy ===== *)
theory Concurrency
  imports Locking
begin

text \<open>
  What the simulation of \<open>Locking\<close> gives: linearizability of the calls, the runs of whole
  operations behind every shared table, and that there is no deadlock.
\<close>

section \<open>Concurrent calls are whole operations\<close>

fun at_rest :: "'g activity \<Rightarrow> bool" where
  "at_rest Outside = True"
| "at_rest (Returning call ans) = True"
| "at_rest t = False"

lemma implements_start: "implements P (Some s, replicate n Outside) (Some s, replicate n Idle)"
  by (auto simp: implements.simps locks_ok_def conflict_def)

lemma holds_at_rest: "at_rest t \<Longrightarrow> holds t m = None"
  by (cases t) auto

lemma implements_rest:
  assumes "implements P (c, ts) (s, st)" and "list_all at_rest ts"
  shows "c = s"
proof (cases c)
  case (Some c')
  with assms(1) obtain s' where s: "s = Some s'" by (cases s) (auto simp: implements.simps)
  note R = implementsD [OF assms(1) [unfolded Some s]]
  have "\<not> writing ts" using assms(2) by (auto simp: writing_def list_all_length holds_at_rest)
  with R(2,5) show ?thesis by (auto simp: Some s intro: services_eqI)
qed (use assms(1) in \<open>cases s; simp add: implements.simps\<close>)

text \<open>
  C2. Linearizability: whatever the threads do, the calls they make and the answers these get
  are those of whole operations performed one after the other, each between its call and its
  return; the process kills itself exactly if one of these operations does, and when no call is
  under way the shared table is the one the operations leave.
\<close>

theorem calls_are_atomic:
  assumes "trace (thread_step P) (Some s, replicate n Outside) es (c, ts)"
  shows "\<exists>s' st. trace (atomic_step P) (Some s, replicate n Idle) es (s', st) \<and>
     (c = None \<longleftrightarrow> s' = None) \<and> (list_all at_rest ts \<longrightarrow> c = s')"
proof -
  obtain s' st where a: "trace (atomic_step P) (Some s, replicate n Idle) es (s', st)"
    "implements P (c, ts) (s', st)"
    using locking.trace_simulated [OF assms implements_start] by auto
  moreover have "c = None \<longleftrightarrow> s' = None"
    using a(2) by (cases c; cases s') (simp_all add: implements.simps)
  moreover have "list_all at_rest ts \<longrightarrow> c = s'" using implements_rest [OF a(2)] by blast
  ultimately show ?thesis by blast
qed

section \<open>Runs of the table\<close>

text \<open>The specification performs operations that some thread has called.\<close>

definition called :: "'g event list \<Rightarrow> 'g table_op \<Rightarrow> bool" where
  "called es op \<longleftrightarrow> (\<exists>i. Call i (Update op) \<in> set es)"

lemma called_mono: "list_all (called es) ops \<Longrightarrow> list_all (called (es @ es')) ops"
  by (auto simp: called_def list_all_iff)

text \<open>The table is one that operations called so far leave.\<close>

definition left_by :: "'g platform \<Rightarrow> 'g services \<Rightarrow> 'g event list \<Rightarrow> 'g services \<Rightarrow> bool" where
  "left_by P s es s' \<longleftrightarrow> (\<exists>ops. run (table_exec P) ops s = Some s' \<and> list_all (called es) ops)"

text \<open>The answer is that of a call thread \<open>i\<close> made, on such a table.\<close>

definition answered_on :: "'g platform \<Rightarrow> 'g services \<Rightarrow> 'g event list \<Rightarrow> nat \<Rightarrow> answer \<Rightarrow> bool" where
  "answered_on P s es i ans \<longleftrightarrow>
     (\<exists>call s'. Call i call \<in> set es \<and> left_by P s es s' \<and> fst (perform P call s') = ans)"

lemma left_by_mono: "left_by P s es s' \<Longrightarrow> left_by P s (es @ es') s'"
  unfolding left_by_def using called_mono by blast

lemma answered_on_mono: "answered_on P s es i ans \<Longrightarrow> answered_on P s (es @ es') i ans"
  unfolding answered_on_def using left_by_mono by fastforce

lemma left_by_perform:
  assumes "left_by P s es s1" and "Call i call \<in> set es" and "snd (perform P call s1) = Some s'"
  shows "left_by P s es s'"
proof (cases call)
  case (Update op)
  obtain ops where ops: "run (table_exec P) ops s = Some s1" "list_all (called es) ops"
    using assms(1) by (auto simp: left_by_def)
  moreover have "table_exec P op s1 = Some s'" "called es op"
    using assms(2,3) Update by (auto simp: called_def perform_update)
  ultimately have "run (table_exec P) (ops @ [op]) s = Some s' \<and> list_all (called es) (ops @ [op])"
    by (simp add: run_append)
  then show ?thesis unfolding left_by_def by blast
qed (use assms in simp)

fun runs_ok :: "'g platform \<Rightarrow> 'g services \<Rightarrow> 'g event list \<Rightarrow> 'g services option \<times> 'g call_status list \<Rightarrow> bool" where
  "runs_ok P s es (s', st) \<longleftrightarrow>
     (case s' of None \<Rightarrow> True | Some t \<Rightarrow> left_by P s es t) \<and>
     (\<forall>i < length st. case st ! i of Idle \<Rightarrow> True | Pending call \<Rightarrow> Call i call \<in> set es
        | Answered call ans \<Rightarrow> answered_on P s es i ans) \<and>
     (\<forall>i ans. Return i ans \<in> set es \<longrightarrow> answered_on P s es i ans)"

lemma runs_ok_event:
  assumes "runs_ok P s es (Some s', st)" and "\<And>i ans. e = Return i ans \<Longrightarrow> answered_on P s es i ans"
  shows "runs_ok P s (es @ [e]) (Some s', st)"
  using assms left_by_mono answered_on_mono by (fastforce split: call_status.splits)

lemma runs_ok_update:
  assumes "runs_ok P s es (s1, st)" and "i < length st" and "case s' of None \<Rightarrow> True | Some t \<Rightarrow> left_by P s es t"
    and "case x of Idle \<Rightarrow> True | Pending call \<Rightarrow> Call i call \<in> set es | Answered call ans \<Rightarrow> answered_on P s es i ans"
  shows "runs_ok P s es (s', st[i := x])"
  using assms by (auto simp: nth_list_update)

lemma atomic_trace_runs:
  assumes "trace (atomic_step P) (Some s, replicate n Idle) es x"
  shows "runs_ok P s es x"
  using assms
proof induction
  case trace_start
  have "left_by P s [] s" unfolding left_by_def by (intro exI [of _ "[]"]) simp
  then show ?case by simp
next
  case (trace_internal es y z)
  from trace_internal.hyps(2) show ?case
  proof cases
    case (atomic_perform i st call s1 ans s2)
    note ok = trace_internal.IH [unfolded atomic_perform(1)]
    have c: "Call i call \<in> set es" "left_by P s es s1" using ok atomic_perform(3,4) by auto
    then have "answered_on P s es i ans" using atomic_perform(5) unfolding answered_on_def by (metis fst_conv)
    moreover have "case s2 of None \<Rightarrow> True | Some t \<Rightarrow> left_by P s es t"
      using left_by_perform [OF c(2,1)] atomic_perform(5) by (cases s2) simp_all
    ultimately show ?thesis
      unfolding atomic_perform(2) by (intro runs_ok_update [OF ok atomic_perform(3)]) simp_all
  qed
next
  case (trace_event es y e z)
  from trace_event.hyps(2) show ?case
  proof cases
    case (atomic_call i st call s1)
    from runs_ok_event [OF trace_event.IH [unfolded atomic_call(2)], of e] have ok: "runs_ok P s (es @ [e]) (Some s1, st)"
      using atomic_call(1) by simp
    then show ?thesis
      unfolding atomic_call(3) using atomic_call(1) by (intro runs_ok_update [OF ok atomic_call(4)]) simp_all
  next
    case (atomic_return i st call ans s1)
    note ok = trace_event.IH [unfolded atomic_return(2)]
    have "answered_on P s es i ans" using ok atomic_return(4,5) by auto
    then have ok': "runs_ok P s (es @ [e]) (Some s1, st)"
      using runs_ok_event [OF ok, of e] atomic_return(1) by simp
    then show ?thesis
      unfolding atomic_return(3) by (intro runs_ok_update [OF ok' atomic_return(4)]) simp_all
  qed
qed

text \<open>
  C18. Whatever a thread is answered is the answer of its call on a table that a sequence of
  whole operations leaves, the configuration at launch first and then operations called by
  some thread; and every table the threads are left with when no call is under way is such a
  table. So what is proved of sequences of operations holds of the table the threads share.
\<close>

theorem shared_table_reachable:
  assumes "setForwarding mode coefficient cookie empty_services = Inr s0"
    and "trace (thread_step P) (Some s0, replicate n Outside) es (c, ts)"
  shows "(\<forall>i ans. Return i ans \<in> set es \<longrightarrow>
        (\<exists>call ops s. Call i call \<in> set es \<and> list_all (called es) ops \<and>
           table_reachable P (OpSetForwarding mode coefficient cookie # ops) s \<and> fst (perform P call s) = ans)) \<and>
     (\<forall>s. c = Some s \<and> list_all at_rest ts \<longrightarrow>
        (\<exists>ops. table_reachable P (OpSetForwarding mode coefficient cookie # ops) s \<and> list_all (called es) ops))"
proof -
  have start: "table_reachable P (OpSetForwarding mode coefficient cookie # ops) s \<longleftrightarrow>
      run (table_exec P) ops s0 = Some s" for ops s
    using assms(1) by (simp add: table_reachable_def)
  obtain s' st where a: "trace (atomic_step P) (Some s0, replicate n Idle) es (s', st)"
    "implements P (c, ts) (s', st)"
    using locking.trace_simulated [OF assms(2) implements_start] by auto
  note ok = atomic_trace_runs [OF a(1)]
  have "\<exists>call ops s. Call i call \<in> set es \<and> list_all (called es) ops \<and>
      run (table_exec P) ops s0 = Some s \<and> fst (perform P call s) = ans" if "Return i ans \<in> set es" for i ans
    using ok that unfolding runs_ok.simps answered_on_def left_by_def by blast
  moreover have "\<exists>ops. run (table_exec P) ops s0 = Some s \<and> list_all (called es) ops"
    if "c = Some s" "list_all at_rest ts" for s
    using ok implements_rest [OF a(2) that(2)] that(1) by (auto simp: left_by_def)
  ultimately show ?thesis unfolding start by blast
qed

text \<open>A request is only ever forwarded to a backend that some thread has announced.\<close>

lemma listed_was_announced:
  assumes "run (table_exec P) ops s = Some s'" and "listed s' svc"
  shows "listed s svc \<or> (\<exists>op \<in> set ops. announces (service_key svc) op)"
  using assms
proof (induction ops arbitrary: s)
  case (Cons op ops)
  then obtain s1 where "table_exec P op s = Some s1" "run (table_exec P) ops s1 = Some s'"
    by (auto split: option.splits)
  with Cons.IH [of s1] Cons.prems(2) listed_exec show ?case by fastforce
qed simp

text \<open>
  C19. However the calls of the threads interleave, a request is forwarded only to a backend
  for which some thread has called \<open>addService\<close>.
\<close>

theorem forwarded_was_announced:
  assumes "setForwarding mode coefficient cookie empty_services = Inr s0"
    and "trace (thread_step P) (Some s0, replicate n Outside) es x"
    and "Return i (Service (Inr (Some svc))) \<in> set es"
  shows "\<exists>j op. Call j (Update op) \<in> set es \<and> announces (service_key svc) op"
proof -
  obtain a where a: "trace (atomic_step P) (Some s0, replicate n Idle) es a"
    using locking.trace_simulated [OF assms(2) implements_start] by blast
  with atomic_trace_runs assms(3) have "answered_on P s0 es i (Service (Inr (Some svc)))"
    by (metis runs_ok.simps surj_pair)
  then obtain call s ops where c: "fst (perform P call s) = Service (Inr (Some svc))"
    "run (table_exec P) ops s0 = Some s" "list_all (called es) ops"
    unfolding answered_on_def left_by_def by blast
  from c(1) have "\<exists>E r. fst (getService P E r s) = Inr (Some svc)"
    by (cases "(P, call, s)" rule: perform.cases)
      (auto split: prod.splits fate.splits elim: answer_query.elims, metis fst_conv)
  then obtain E r where "fst (getService P E r s) = Inr (Some svc)" by blast
  then have "listed s svc" by (rule getService_listed)
  moreover have "\<not> listed s0 svc"
    unfolding listed_setForwarding [OF assms(1)] by (simp add: listed_def list_at_def uri_list_def empty_services_def)
  ultimately show ?thesis using listed_was_announced [OF c(2)] c(3) by (fastforce simp: list_all_iff called_def)
qed

section \<open>Every call comes to its end\<close>

fun stage :: "'g activity \<Rightarrow> nat" where
  "stage (Called call) = 3"
| "stage (Inside call xs) = 2"
| "stage (Translated call p) = 1"
| "stage (AtSentinels call) = 1"
| "stage t = 0"

fun accesses_left :: "'g activity \<Rightarrow> nat" where
  "accesses_left (Inside call xs) = length xs"
| "accesses_left t = 0"

definition work :: "'g threads \<Rightarrow> nat \<times> nat" where
  "work x = (sum_list (map stage (snd x)) + (if fst x = None then 0 else 1),
             sum_list (map accesses_left (snd x)))"

lemma sum_list_moves:
  fixes f :: "'a \<Rightarrow> nat"
  shows "i < length ts \<Longrightarrow> sum_list (map f (ts[i := t])) + f (ts ! i) = sum_list (map f ts) + f t"
proof (induction ts arbitrary: i)
  case (Cons x ts)
  show ?case
  proof (cases i)
    case (Suc j)
    with Cons.IH [of j] Cons.prems show ?thesis by simp
  qed simp
qed simp

lemma internal_step_works:
  assumes "thread_step P None x y"
  shows "(work y, work x) \<in> less_than <*lex*> less_than"
  using assms
proof cases
  case (accesses i ts call a xs s)
  show ?thesis
    using sum_list_moves [OF accesses(3), of stage "Inside call xs"]
      sum_list_moves [OF accesses(3), of accesses_left "Inside call xs"] accesses(1,2,4)
    by (simp add: work_def)
next
  case (finishes i ts call s ans s')
  show ?thesis
    using sum_list_moves [OF finishes(3), of stage "Returning call ans"] finishes(1,2,4) by (simp add: work_def)
next
  case (nothing_to_do i ts call s)
  show ?thesis
    using sum_list_moves [OF nothing_to_do(3), of stage "Returning call (Flag False)"] nothing_to_do(1,2,4)
    by (simp add: work_def)
next
  case (locks i ts call m a s)
  show ?thesis
    using sum_list_moves [OF locks(3), of stage "Inside call (body call s)"] locks(1,2,4)
    by (simp add: work_def)
next
  case (translates i ts call uri s)
  show ?thesis
    using sum_list_moves [OF translates(3), of stage "Translated call (translate P (itsPrefixMap s) uri)"]
      translates(1,2,4) by (simp add: work_def)
next
  case (looks_it_up i ts call uri_prefix s ans s')
  show ?thesis
    using sum_list_moves [OF looks_it_up(3), of stage "Returning call ans"] looks_it_up(1,2,4) by (simp add: work_def)
next
  case (locks_sentinels i ts call s)
  show ?thesis
    using sum_list_moves [OF locks_sentinels(3), of stage "AtSentinels call"] locks_sentinels(1,2,4)
    by (simp add: work_def)
next
  case (renews_sentinel i ts call s)
  show ?thesis
    using sum_list_moves [OF renews_sentinel(3), of stage "Returning call (Flag True)"] renews_sentinel(1,2,4)
    by (simp add: work_def)
qed

text \<open>Where no thread can move, none is in a call.\<close>

lemma stuck_is_at_rest:
  assumes "implements P (Some c, ts) a" and stuck: "\<And>y. \<not> thread_step P None (Some c, ts) y"
  shows "list_all at_rest ts"
proof -
  obtain s st where a: "a = (Some s, st)" using assms(1) by (cases a; cases "fst a") (auto simp: implements.simps)
  have ok: "thread_ok P c s (ts ! i)" if "i < length ts" for i
    using implementsD(4) [OF assms(1) [unfolded a] that] .
  have no_sentinels: "ts ! i \<noteq> AtSentinels call" if "i < length ts" for i call
    using stuck renews_sentinel [OF that] by blast
  have no_translated: "ts ! i \<noteq> Translated call p" if "i < length ts" for i call p
    using stuck looks_it_up [OF that] by (metis surj_pair)
  have drained: "xs = []" if i: "i < length ts" and t: "ts ! i = Inside call xs" for i call xs
  proof (cases xs)
    case (Cons x ys)
    from accesses [OF i t [unfolded Cons]] stuck show ?thesis by blast
  qed
  have adding: "adds_service call" if i: "i < length ts" and t: "ts ! i = Inside call xs" for i call xs
  proof (rule ccontr)
    assume n: "\<not> adds_service call"
    have t': "ts ! i = Inside call []" using drained [OF i t] t by simp
    obtain ans s' where fin: "finish P call c = (ans, s')" by force
    show False
    proof (cases "looks_up call")
      case None
      from finishes [OF i t' None n fin] stuck show ?thesis by blast
    next
      case (Some uri)
      from translates [OF i t' Some] stuck show ?thesis by blast
    qed
  qed
  have none_inside: "ts ! i \<noteq> Inside call xs" if i: "i < length ts" for i call xs
  proof
    assume t: "ts ! i = Inside call xs"
    have "xs = []" by (rule drained [OF i t])
    moreover have "holds (ts ! j) ItsSentinelMutex = None" if "j < length ts" for j
      using no_sentinels [OF that] adding [OF that] by (cases "ts ! j") (auto simp: adding_writes)
    then have "grants ts i ItsSentinelMutex WriteLock" by (auto simp: grants_def list_all_iff conflict_def)
    ultimately show False using stuck locks_sentinels [OF i] t adding [OF i t] by blast
  qed
  have none_holds: "holds (ts ! j) m = None" if "j < length ts" for j m
    using no_sentinels [OF that] no_translated [OF that] none_inside [OF that] by (cases "ts ! j") auto
  have "ts ! i \<noteq> Called call" if i: "i < length ts" for i call
  proof
    assume t: "ts ! i = Called call"
    show False
    proof (cases "guarded_by call")
      case None
      then show ?thesis using stuck nothing_to_do [OF i t] by blast
    next
      case (Some ma)
      moreover obtain m a where "ma = (m, a)" by force
      moreover have "grants ts i m a" using none_holds by (auto simp: grants_def list_all_iff conflict_def)
      ultimately show ?thesis using stuck locks [OF i t] by blast
    qed
  qed
  with no_sentinels no_translated none_inside have "at_rest (ts ! i)" if "i < length ts" for i
    using that by (cases "ts ! i") auto
  then show ?thesis by (simp add: list_all_length)
qed

text \<open>
  C17. There is no deadlock, for the two mutexes are always taken in the same order, and no
  call goes on without end: in whatever state the threads are, once no new call is made the
  accesses and locks of the calls under way come to an end, and when none is possible
  any more every thread has its answer, unless the process has killed itself. That a waiting
  writer gets its lock while readers keep calling is not claimed: the shared lock lets
  overlapping readers hold it up.
\<close>

theorem calls_come_to_an_end:
  assumes "trace (thread_step P) (Some s, replicate n Outside) es x"
  shows "(\<nexists>f. f 0 = x \<and> (\<forall>k. thread_step P None (f k) (f (Suc k)))) \<and>
     (\<forall>c ts. (thread_step P None)\<^sup>*\<^sup>* x (Some c, ts) \<longrightarrow>
        (\<forall>y. \<not> thread_step P None (Some c, ts) y) \<longrightarrow> list_all at_rest ts)"
proof (intro conjI allI impI notI)
  assume "\<exists>f. f 0 = x \<and> (\<forall>k. thread_step P None (f k) (f (Suc k)))"
  then obtain f where f: "\<And>k. thread_step P None (f k) (f (Suc k))" by auto
  have "(f (Suc k), f k) \<in> inv_image (less_than <*lex*> less_than) work" for k
    using internal_step_works [OF f [of k]] by (simp only: in_inv_image)
  moreover have "wf (inv_image (less_than <*lex*> less_than) work)" by (intro wf_inv_image wf_lex_prod wf_less_than)
  ultimately show False unfolding wf_iff_no_infinite_down_chain by blast
next
  fix c ts
  assume "(thread_step P None)\<^sup>*\<^sup>* x (Some c, ts)" and stuck: "\<forall>y. \<not> thread_step P None (Some c, ts) y"
  from this(1) have "trace (thread_step P) (Some s, replicate n Outside) es (Some c, ts)"
    by induction (auto intro: assms trace.trace_internal)
  then obtain a where "implements P (Some c, ts) a" using locking.trace_simulated [OF _ implements_start] by blast
  with stuck show "list_all at_rest ts" using stuck_is_at_rest by blast
qed

section \<open>Every operation can be performed\<close>

lemma thread_activity_at_rest:
  "at_rest t \<Longrightarrow> status t = Idle \<Longrightarrow> t = Outside"
  "at_rest t \<Longrightarrow> status t = Answered call ans \<Longrightarrow> t = Returning call ans"
  "at_rest t \<Longrightarrow> status t \<noteq> Pending call"
  by (cases t; simp)+

lemma rest_determined: "at_rest t \<Longrightarrow> at_rest t' \<Longrightarrow> status t = status t' \<Longrightarrow> t = t'"
  by (cases t; cases t') auto

text \<open>While only one call is pending, hidden steps can do no more than perform it.\<close>

lemma one_pending_call:
  assumes "(thread_step P None)\<^sup>*\<^sup>* x y" and "implements P x (Some s, st)"
    and "\<And>j call'. j < length st \<Longrightarrow> st ! j = Pending call' \<Longrightarrow> j = i \<and> call' = call"
  shows "implements P y (Some s, st) \<or>
     (\<exists>ans s'. perform P call s = (ans, s') \<and> implements P y (s', st[i := Answered call ans]))"
  using assms(1)
proof (induction rule: rtranclp_induct)
  case (step y z)
  have stays: "implements P z (s', st[i := Answered call ans])"
    if "implements P y (s', st[i := Answered call ans])" for s' ans
  proof -
    have "\<not> atomic_step P None (s', st[i := Answered call ans]) a" for a
    proof
      assume "atomic_step P None (s', st[i := Answered call ans]) a"
      then show False
      proof cases
        case (atomic_perform j call' s1 ans' s2)
        with assms(3) [of j call'] show False by (cases "j = i") auto
      qed
    qed
    with locking.simulated [OF that step.hyps(2)] show ?thesis by blast
  qed
  from step.IH show ?case
  proof
    assume "implements P y (Some s, st)"
    from locking.simulated [OF this step.hyps(2)] show ?thesis
    proof
      assume "\<exists>a. atomic_step P None (Some s, st) a \<and> implements P z a"
      then obtain a where a: "atomic_step P None (Some s, st) a" "implements P z a" by blast
      from a(1) show ?thesis
      proof cases
        case (atomic_perform j call' ans s')
        with assms(3) [of j call'] a(2) show ?thesis by auto
      qed
    qed simp
  next
    assume "\<exists>ans s'. perform P call s = (ans, s') \<and> implements P y (s', st[i := Answered call ans])"
    with stays show ?thesis by blast
  qed
qed (use assms(2) in simp)

lemma hidden_steps_end:
  "\<exists>y. (thread_step P None)\<^sup>*\<^sup>* x y \<and> (\<forall>z. \<not> thread_step P None y z)"
proof (induction x rule: wf_induct_rule [OF wf_inv_image [OF wf_lex_prod [OF wf_less_than wf_less_than], of work]])
  case (1 x)
  show ?case
  proof (cases "\<exists>z. thread_step P None x z")
    case True
    then obtain z where z: "thread_step P None x z" by blast
    have "(z, x) \<in> inv_image (less_than <*lex*> less_than) work"
      using internal_step_works [OF z] by (simp only: in_inv_image)
    from "1" [OF this] obtain y where
      "(thread_step P None)\<^sup>*\<^sup>* z y" "\<forall>u. \<not> thread_step P None y u" by blast
    with z show ?thesis by (blast intro: converse_rtranclp_into_rtranclp)
  qed blast
qed

lemma thread_ok_at_rest: "at_rest t \<Longrightarrow> thread_ok P c s t"
  by (cases t) auto

text \<open>The threads perform every operation: the converse of linearizability, one call at a time.\<close>

lemma call_completes:
  assumes "list_all at_rest ts" and "i < length ts" and "ts ! i = Outside" and "from_threads call"
    and "perform P call s = (ans, Some s')"
  shows "thread_step P (Some (Call i call)) (Some s, ts) (Some s, ts[i := Called call])"
    and "(thread_step P None)\<^sup>*\<^sup>* (Some s, ts[i := Called call]) (Some s', ts[i := Returning call ans])"
    and "thread_step P (Some (Return i ans)) (Some s', ts[i := Returning call ans]) (Some s', ts)"
proof -
  show step: "thread_step P (Some (Call i call)) (Some s, ts) (Some s, ts[i := Called call])"
    by (rule calls) (use assms in simp_all)
  have "ts[i := Outside] = ts" using assms(3) by (metis list_update_id)
  then show "thread_step P (Some (Return i ans)) (Some s', ts[i := Returning call ans]) (Some s', ts)"
    using returns [of i "ts[i := Returning call ans]" call ans P s'] assms(2) by simp
  have start: "implements P (Some s, ts) (Some s, map status ts)"
    using assms(1) by (auto simp: implements.simps locks_ok_def conflict_def list_all_length holds_at_rest
        thread_ok_at_rest)
  from locking.simulated [OF this step] obtain a where
    "atomic_step P (Some (Call i call)) (Some s, map status ts) a" "implements P (Some s, ts[i := Called call]) a" by auto
  then have impl: "implements P (Some s, ts[i := Called call]) (Some s, (map status ts)[i := Pending call])" by cases auto
  obtain y where y: "(thread_step P None)\<^sup>*\<^sup>* (Some s, ts[i := Called call]) y" "\<forall>z. \<not> thread_step P None y z"
    using hidden_steps_end by blast
  have pending: "j = i \<and> call' = call"
    if "j < length ((map status ts)[i := Pending call])" "(map status ts)[i := Pending call] ! j = Pending call'" for j call'
    using that assms(1) thread_activity_at_rest(3) [of "ts ! j" call']
    by (cases "j = i") (auto simp: list_all_length)
  from one_pending_call [OF y(1) impl pending] consider
      "implements P y (Some s, (map status ts)[i := Pending call])"
    | "implements P y (Some s', (map status ts)[i := Answered call ans])" using assms(2,5) by auto
  then have "y = (Some s', ts[i := Returning call ans])"
  proof cases
    case 1
    then obtain c ts' where c: "y = (Some c, ts')" by (cases y; cases "fst y") (auto simp: implements.simps)
    have "list_all at_rest ts'" using stuck_is_at_rest 1 y(2) unfolding c by blast
    moreover have "(map status ts)[i := Pending call] = map status ts'" using implementsD(3) 1 unfolding c by blast
    ultimately have "at_rest (ts' ! i)" "status (ts' ! i) = Pending call"
      using assms(2) by (metis length_list_update length_map list_all_length, metis length_list_update length_map nth_list_update_eq nth_map)
    then show ?thesis using thread_activity_at_rest(3) by blast
  next
    case 2
    then obtain c ts' where c: "y = (Some c, ts')" by (cases y; cases "fst y") (auto simp: implements.simps)
    have rest: "list_all at_rest ts'" using stuck_is_at_rest 2 y(2) unfolding c by blast
    have st: "(map status ts)[i := Answered call ans] = map status ts'" using implementsD(3) 2 unfolding c by blast
    then have len: "length ts' = length ts" by (metis length_list_update length_map)
    have "ts' ! j = ts[i := Returning call ans] ! j" if j: "j < length ts'" for j
    proof (rule rest_determined)
      show "at_rest (ts' ! j)" using rest j by (simp add: list_all_length)
      show "at_rest (ts[i := Returning call ans] ! j)"
        using assms(1,2) j len by (simp add: list_all_length nth_list_update)
      show "status (ts' ! j) = status (ts[i := Returning call ans] ! j)"
        using arg_cong [OF st, of "\<lambda>l. l ! j"] j len assms(2) by (simp add: nth_list_update split: if_splits)
    qed
    with len have "ts' = ts[i := Returning call ans]" by (simp add: list_eq_iff_nth_eq)
    moreover have "c = s'" using implements_rest 2 rest unfolding c by blast
    ultimately show ?thesis by (simp add: c)
  qed
  with y(1) show "(thread_step P None)\<^sup>*\<^sup>* (Some s, ts[i := Called call]) (Some s', ts[i := Returning call ans])" by simp
qed

section \<open>Two threads at work\<close>

text \<open>
  One thread adds a service; while it holds \<open>itsMutex\<close>, the other acknowledges the backend,
  which takes only \<open>itsSentinelMutex\<close>, and has its answer first. Then the other asks for a
  service, while the first has not returned yet.
\<close>

definition sample_start :: "nat services" where
  "sample_start = empty_services\<lparr>itsFwdMode := LeastConnections\<rparr>"

lemma sample_start: "setForwarding ''leastconnections'' (Fin 2) [] empty_services = Inr sample_start"
  by (simp add: setForwarding_def sample_start_def empty_services_def)

definition sample_call :: "nat table_call" where
  "sample_call = Update (sample_add ''a'' 1)"

definition sample_ack :: "nat table_call" where
  "sample_ack = Update (OpSetBackendAlive ''a'' 80)"

definition sample_get :: "nat table_call" where
  "sample_get = Update (OpGetService sample_env sample_request)"

definition sample_access :: "nat table_access" where
  "sample_access = AddToList sample_env (sample_service ''a'' 1) ''/wms'' (Fin 0)"

definition sample_answer :: answer where
  "sample_answer = Service (Inr (Some (sample_service ''a'' 1)))"

lemma sample_calls [simp]:
  "guarded_by sample_call = Some (ItsMutex, WriteLock)" "from_threads sample_call" "adds_service sample_call"
  "guarded_by sample_ack = Some (ItsSentinelMutex, ReadLock)" "from_threads sample_ack"
  "\<not> adds_service sample_ack" "looks_up sample_ack = None"
  "guarded_by sample_get = Some (ItsMutex, ReadLock)" "from_threads sample_get" "looks_up sample_get = Some ''/wms''"
  "body sample_call s = [sample_access]" "body sample_ack s = []" "body sample_get s = []"
  "finish P sample_ack s = (Nothing, Some (setBackendAlive ''a'' 80 s))"
  by (simp_all add: sample_call_def sample_ack_def sample_get_def sample_access_def sample_add_def sample_request_def)

definition sample_shared :: "nat services" where
  "sample_shared = with_sentinel sample_call (setBackendAlive ''a'' 80 (make_access reference_platform sample_access sample_start))"

abbreviation sample_events :: "nat event list" where
  "sample_events \<equiv> [Call 0 sample_call, Call 1 sample_ack, Return 1 Nothing]"

lemma sample_interleaving:
  "trace (thread_step reference_platform) (Some sample_start, replicate 2 Outside) sample_events
     (Some sample_shared, [Returning sample_call (Flag True), Outside])"
proof -
  let ?T = "trace (thread_step reference_platform) (Some sample_start, replicate 2 Outside)"
  let ?P = reference_platform and ?x = sample_access
  let ?s = "make_access ?P ?x sample_start"
  have start: "?T [] (Some sample_start, [Outside, Outside])"
    using trace.trace_start [of "thread_step ?P" "(Some sample_start, replicate 2 Outside)"]
    by (simp add: numeral_2_eq_2)
  have "?T [Call 0 sample_call] (Some sample_start, [Called sample_call, Outside])"
    using trace.trace_event [OF start calls [of 0 _ sample_call]] by simp
  from trace.trace_internal [OF this locks [of 0 _ sample_call ItsMutex WriteLock]]
  have "?T [Call 0 sample_call] (Some sample_start, [Inside sample_call [?x], Outside])"
    by (simp add: grants_def conflict_def upt_rec)
  from trace.trace_event [OF this calls [of 1 _ sample_ack]]
  have "?T [Call 0 sample_call, Call 1 sample_ack] (Some sample_start, [Inside sample_call [?x], Called sample_ack])"
    by simp
  from trace.trace_internal [OF this locks [of 1 _ sample_ack ItsSentinelMutex ReadLock]]
  have "?T [Call 0 sample_call, Call 1 sample_ack] (Some sample_start, [Inside sample_call [?x], Inside sample_ack []])"
    by (simp add: grants_def conflict_def upt_rec)
  moreover have "thread_step ?P None (Some sample_start, [Inside sample_call [?x], Inside sample_ack []])
      (Some ?s, [Inside sample_call [], Inside sample_ack []])"
    using accesses [of 0 "[Inside sample_call [?x], Inside sample_ack []]" sample_call ?x "[]" ?P sample_start]
    by (simp only: list.size nth_Cons_0 list_update.simps nat.case zero_less_Suc simp_thms)
  ultimately have "?T [Call 0 sample_call, Call 1 sample_ack] (Some ?s, [Inside sample_call [], Inside sample_ack []])"
    by (rule trace.trace_internal)
  from trace.trace_internal [OF this finishes [of 1 _ sample_ack]]
  have "?T [Call 0 sample_call, Call 1 sample_ack]
      (Some (setBackendAlive ''a'' 80 ?s), [Inside sample_call [], Returning sample_ack Nothing])" by simp
  from trace.trace_event [OF this returns [of 1 _ sample_ack Nothing]]
  have "?T sample_events (Some (setBackendAlive ''a'' 80 ?s), [Inside sample_call [], Outside])" by simp
  from trace.trace_internal [OF this locks_sentinels [of 0 _ sample_call]]
  have "?T sample_events (Some (setBackendAlive ''a'' 80 ?s), [AtSentinels sample_call, Outside])"
    by (simp add: grants_def conflict_def upt_rec)
  from trace.trace_internal [OF this renews_sentinel [of 0 _ sample_call]] show ?thesis
    by (simp add: sample_shared_def)
qed

lemma sample_lookup:
  "\<exists>s. look_up reference_platform sample_get ''/wms'' sample_shared = (sample_answer, s)"
proof -
  let ?P = reference_platform and ?svc = "sample_service ''a'' 1"
  obtain f where f: "itsServicesByURI sample_shared = [(''/wms'', [?svc], f)]"
    "fwd_mode f = LeastConnections" "length (itsBackendInfos f) = 1" "fwd_wf f"
    "mset (map service_key [?svc]) = mset (fwd_keys f)"
    by (simp add: sample_shared_def sample_call_def sample_add_def sample_access_def sample_start_def
        empty_services_def add_to_list_def new_forwarder_def fwd_keys_def)
  have ready: "fwd_ready ?P (requestStatus sample_env) f"
    using f by (simp add: fwd_ready_def strategy_ready_def platform_ok_def reference_uniform reference_discrete)
  from fw.pick_in_table [OF f(5) _ ready] have "fst (fwd_getBackend ?P (requestStatus sample_env) sample_request f) = Inr 0"
    by auto
  then show ?thesis
    using f(1) by (auto simp: sample_get_def sample_answer_def choose_backend_def Let_def split: prod.splits)
qed

lemma sample_forwarding:
  "\<exists>s. trace (thread_step reference_platform) (Some sample_start, replicate 2 Outside)
     (sample_events @ [Call 1 sample_get, Return 1 sample_answer]) (Some s, [Returning sample_call (Flag True), Outside])"
proof -
  let ?T = "trace (thread_step reference_platform) (Some sample_start, replicate 2 Outside)"
  let ?r = "Returning sample_call (Flag True)" and ?es = "sample_events @ [Call 1 sample_get]"
  obtain s where s: "look_up reference_platform sample_get ''/wms'' sample_shared = (sample_answer, s)"
    using sample_lookup by blast
  have tr: "translate reference_platform (itsPrefixMap sample_shared) ''/wms'' = ''/wms''"
    by (simp add: sample_shared_def sample_call_def sample_add_def sample_access_def sample_start_def
        empty_services_def translate_def setBackendAlive_def)
  from trace.trace_event [OF sample_interleaving calls [of 1 _ sample_get]]
  have "?T ?es (Some sample_shared, [?r, Called sample_get])" by simp
  from trace.trace_internal [OF this locks [of 1 _ sample_get ItsMutex ReadLock]]
  have "?T ?es (Some sample_shared, [?r, Inside sample_get []])" by (simp add: grants_def conflict_def upt_rec)
  moreover have "thread_step reference_platform None (Some sample_shared, [?r, Inside sample_get []])
      (Some sample_shared, [?r, Translated sample_get ''/wms''])"
    using translates [of 1 "[?r, Inside sample_get []]" sample_get "''/wms''" reference_platform sample_shared]
    by (simp add: tr)
  ultimately have "?T ?es (Some sample_shared, [?r, Translated sample_get ''/wms''])" by (rule trace.trace_internal)
  moreover have "thread_step reference_platform None (Some sample_shared, [?r, Translated sample_get ''/wms''])
      (Some s, [?r, Returning sample_get sample_answer])"
    using looks_it_up [of 1 "[?r, Translated sample_get ''/wms'']" sample_get "''/wms''", OF _ _ s] by simp
  ultimately have "?T ?es (Some s, [?r, Returning sample_get sample_answer])" by (rule trace.trace_internal)
  from trace.trace_event [OF this returns [of 1 _ sample_get sample_answer]] show ?thesis by auto
qed

theorem calls_are_atomic_witness:
  "\<exists>st. trace (atomic_step reference_platform) (Some sample_start, replicate 2 Idle) sample_events
     (Some sample_shared, st)"
  using calls_are_atomic [OF sample_interleaving] by auto

theorem shared_table_reachable_witness:
  "\<exists>ops s. table_reachable reference_platform (OpSetForwarding ''leastconnections'' (Fin 2) [] # ops) s \<and>
     (\<exists>call. fst (perform reference_platform call s) = sample_answer)"
proof -
  obtain s where "trace (thread_step reference_platform) (Some sample_start, replicate 2 Outside)
     (sample_events @ [Call 1 sample_get, Return 1 sample_answer]) (Some s, [Returning sample_call (Flag True), Outside])"
    using sample_forwarding by blast
  from shared_table_reachable [OF sample_start this] have "\<forall>i ans. Return i ans \<in> set (sample_events @ [Call 1 sample_get, Return 1 sample_answer]) \<longrightarrow>
     (\<exists>call ops s. Call i call \<in> set (sample_events @ [Call 1 sample_get, Return 1 sample_answer]) \<and>
        list_all (called (sample_events @ [Call 1 sample_get, Return 1 sample_answer])) ops \<and>
        table_reachable reference_platform (OpSetForwarding ''leastconnections'' (Fin 2) [] # ops) s \<and>
        fst (perform reference_platform call s) = ans)" by (rule conjunct1)
  from this [rule_format, of 1 sample_answer] show ?thesis by auto
qed

theorem forwarded_was_announced_witness:
  "\<exists>j op. Call j (Update op) \<in> set (sample_events @ [Call 1 sample_get, Return 1 sample_answer]) \<and>
     announces (''a'', 80) op"
proof -
  let ?es = "sample_events @ [Call 1 sample_get, Return 1 sample_answer]"
  obtain s where t: "trace (thread_step reference_platform) (Some sample_start, replicate 2 Outside) ?es
      (Some s, [Returning sample_call (Flag True), Outside])" using sample_forwarding by blast
  have "Return 1 (Service (Inr (Some (sample_service ''a'' 1)))) \<in> set ?es" by (simp add: sample_answer_def)
  from forwarded_was_announced [OF sample_start t this] show ?thesis by simp
qed

theorem calls_come_to_an_end_witness:
  "list_all at_rest (snd (Some sample_shared, [Returning sample_call (Flag True), Outside])) \<and>
     (\<nexists>f. f 0 = (Some sample_shared, [Returning sample_call (Flag True), Outside]) \<and>
        (\<forall>k. thread_step reference_platform None (f k) (f (Suc k))))"
  using calls_come_to_an_end [OF sample_interleaving] by simp

end
