(* ===== verification/Shared_Frontend.thy ===== *)
theory Shared_Frontend
  imports Timely Concurrency
begin

text \<open>
  The frontend and the threads that share its table, put together: thread 0 is the io thread,
  which makes the calls of a reply and the pruning at the deadline under the locks of the
  table like every other thread. It is the frontend of \<open>Frontend_Node\<close>, in which a call is
  one step.
\<close>

section \<open>The machine\<close>

text \<open>
  What the io thread is doing: something that does not concern the table, a call of a reply
  (with these calls to follow), or the pruning.
\<close>

datatype 'g io_phase = Task "'g io_task" | Replying "'g table_op list" | Pruning

type_synonym 'g shared_frontend = "'g engine \<times> 'g activity list \<times> 'g io_phase"

fun calls_table :: "'g io_task \<Rightarrow> 'g io_task \<Rightarrow> bool" where
  "calls_table (InReply (op # ops)) t = True"
| "calls_table Waiting Asleep = True"
| "calls_table t t' = False"

text \<open>
  The deadline before the pruning, and after it. The counter of silent rounds, which only the
  io thread reads, is 0 in the end whichever branch prunes; it is set once, after the call.
\<close>

definition cancel_receives :: "'g engine \<Rightarrow> 'g engine" where
  "cancel_receives e =
     e\<lparr>timerArmed := False, postedReceives := 0,
       completedReceives := completedReceives e @ replicate (postedReceives e) Cancelled\<rparr>"

definition reset_counters :: "'g engine \<Rightarrow> 'g engine" where
  "reset_counters e = e\<lparr>itsSkippedCycles := 0, itsReceivedResponses := 0\<rparr>"

definition prune_call :: "'g engine_env \<Rightarrow> 'g engine \<Rightarrow> 'g table_call" where
  "prune_call E e = Update (OpLatestSequence (tableEnv E 0) (uint (itsFrontendSequence e)))"

text \<open>What the other threads do: the calls they are allowed, and their way through them.\<close>

fun by_others :: "('g table_op \<Rightarrow> bool) \<Rightarrow> 'g event option \<Rightarrow> bool" where
  "by_others allowed None = True"
| "by_others allowed (Some (Call i (Update op))) = (i \<noteq> 0 \<and> allowed op)"
| "by_others allowed (Some (Call i (Ask q))) = (i \<noteq> 0)"
| "by_others allowed (Some (Return i ans)) = (i \<noteq> 0)"

inductive shared_step ::
  "'g platform \<Rightarrow> wire \<Rightarrow> ('g engine \<Rightarrow> string \<Rightarrow> bool) \<Rightarrow> ('g engine \<Rightarrow> broadcast_message \<Rightarrow> bool) \<Rightarrow>
     ('g table_op \<Rightarrow> bool) \<Rightarrow> 'g shared_frontend \<Rightarrow> 'g shared_frontend \<Rightarrow> bool"
  for P :: "'g platform" and W :: wire and arrives :: "'g engine \<Rightarrow> string \<Rightarrow> bool"
    and accept :: "'g engine \<Rightarrow> broadcast_message \<Rightarrow> bool" and allowed :: "'g table_op \<Rightarrow> bool" where
  io_moves:
    "frontend_step P W arrives accept (\<lambda>op. False) (e, t) (e', t') \<Longrightarrow> \<not> calls_table t t' \<Longrightarrow>
       shared_step P W arrives accept allowed (e, ts, Task t) (e', ts, Task t')"
| reply_calls_table:
    "thread_step P (Some (Call 0 (Update op))) (Some (itsServices e), ts) (Some s, ts') \<Longrightarrow>
       shared_step P W arrives accept allowed (e, ts, Task (InReply (op # ops))) (e\<lparr>itsServices := s\<rparr>, ts', Replying ops)"
| reply_call_returns:
    "thread_step P (Some (Return 0 ans)) (Some (itsServices e), ts) (Some s, ts') \<Longrightarrow>
       shared_step P W arrives accept allowed (e, ts, Replying ops) (e\<lparr>itsServices := s\<rparr>, ts', Task (InReply ops))"
| deadline_spares:
    "timerArmed e \<Longrightarrow> \<not> pruning_due e \<Longrightarrow>
       shared_step P W arrives accept allowed (e, ts, Task Waiting) (close_round P E e, ts, Task Asleep)"
| deadline_calls_table:
    "timerArmed e \<Longrightarrow> pruning_due e \<Longrightarrow>
       thread_step P (Some (Call 0 (prune_call E e))) (Some (itsServices e), ts) (Some s, ts') \<Longrightarrow>
       shared_step P W arrives accept allowed (e, ts, Task Waiting) ((cancel_receives e)\<lparr>itsServices := s\<rparr>, ts', Pruning)"
| deadline_call_returns:
    "thread_step P (Some (Return 0 ans)) (Some (itsServices e), ts) (Some s, ts') \<Longrightarrow>
       shared_step P W arrives accept allowed (e, ts, Pruning) ((reset_counters e)\<lparr>itsServices := s\<rparr>, ts', Task Asleep)"
| threads_move:
    "by_others allowed l \<Longrightarrow> thread_step P l (Some (itsServices e), ts) (Some s, ts') \<Longrightarrow>
       shared_step P W arrives accept allowed (e, ts, ph) (e\<lparr>itsServices := s\<rparr>, ts', ph)"

inductive shared_reachable ::
  "'g platform \<Rightarrow> wire \<Rightarrow> ('g engine \<Rightarrow> string \<Rightarrow> bool) \<Rightarrow> ('g engine \<Rightarrow> broadcast_message \<Rightarrow> bool) \<Rightarrow>
     ('g table_op \<Rightarrow> bool) \<Rightarrow> 'g shared_frontend \<Rightarrow> bool"
  for P :: "'g platform" and W :: wire and arrives :: "'g engine \<Rightarrow> string \<Rightarrow> bool"
    and accept :: "'g engine \<Rightarrow> broadcast_message \<Rightarrow> bool" and allowed :: "'g table_op \<Rightarrow> bool" where
  shared_launched:
    "new_engine N C = Inr e \<Longrightarrow> launch N' W E ModeFrontend e = Inr e' \<Longrightarrow> n > 0 \<Longrightarrow>
       shared_reachable P W arrives accept allowed (e', replicate n Outside, Task Waiting)"
| shared_moved:
    "shared_reachable P W arrives accept allowed x \<Longrightarrow> shared_step P W arrives accept allowed x y \<Longrightarrow>
       shared_reachable P W arrives accept allowed y"

section \<open>The frontend it implements\<close>

text \<open>
  The frontend \<open>(a, u)\<close> has performed the calls made so far: its table is the specification's,
  and it is where the io thread is, before or after its call.
\<close>

definition same_engine :: "'g engine \<Rightarrow> 'g engine \<Rightarrow> bool" where
  "same_engine e a \<longleftrightarrow> e\<lparr>itsServices := itsServices a\<rparr> = a"

fun io_matches :: "'g engine \<Rightarrow> 'g io_phase \<Rightarrow> 'g call_status \<Rightarrow> 'g engine \<Rightarrow> 'g io_task \<Rightarrow> bool" where
  "io_matches e (Task t) io a u \<longleftrightarrow> io = Idle \<and> u = t \<and> same_engine e a"
| "io_matches e (Replying ops) io a u \<longleftrightarrow> same_engine e a \<and>
     ((\<exists>op. io = Pending (Update op) \<and> u = InReply (op # ops)) \<or> (\<exists>call ans. io = Answered call ans) \<and> u = InReply ops)"
| "io_matches e Pruning io a u \<longleftrightarrow>
     (\<exists>E. io = Pending (prune_call E a) \<and> u = Waiting \<and> timerArmed a \<and> pruning_due a \<and>
        same_engine e (cancel_receives a)) \<or>
     (\<exists>call ans. io = Answered call ans) \<and> u = Asleep \<and> same_engine (reset_counters e) a"

definition others_match ::
  "'g platform \<Rightarrow> ('g table_op \<Rightarrow> bool) \<Rightarrow> ('g frontend \<Rightarrow> bool) \<Rightarrow> 'g call_status list \<Rightarrow> bool" where
  "others_match P allowed reached st \<longleftrightarrow>
     (\<forall>i < length st. (i \<noteq> 0 \<longrightarrow> (\<forall>op. st ! i = Pending (Update op) \<longrightarrow> allowed op)) \<and>
        (\<forall>call ans. st ! i = Answered call ans \<longrightarrow>
           (\<exists>a u. reached (a, u) \<and> fst (perform P call (itsServices a)) = ans)))"

fun matches ::
  "'g platform \<Rightarrow> ('g table_op \<Rightarrow> bool) \<Rightarrow> ('g frontend \<Rightarrow> bool) \<Rightarrow> 'g shared_frontend \<Rightarrow> 'g frontend \<Rightarrow> bool" where
  "matches P allowed reached (e, ts, ph) (a, u) \<longleftrightarrow>
     (\<exists>st. implements P (Some (itsServices e), ts) (Some (itsServices a), st) \<and> st \<noteq> [] \<and>
        io_matches e ph (st ! 0) a u \<and> others_match P allowed reached st)"

lemma same_engine_table [simp]:
  "same_engine (e\<lparr>itsServices := s\<rparr>) a = same_engine e a" "same_engine e (a\<lparr>itsServices := s\<rparr>) = same_engine e a"
  by (cases e; cases a; auto simp: same_engine_def)+

lemma table_elsewhere:
  "reset_counters (e\<lparr>itsServices := s\<rparr>) = (reset_counters e)\<lparr>itsServices := s\<rparr>"
  "cancel_receives (e\<lparr>itsServices := s\<rparr>) = (cancel_receives e)\<lparr>itsServices := s\<rparr>"
  "receive_datagram d (e\<lparr>itsServices := s\<rparr>) = (receive_datagram d e)\<lparr>itsServices := s\<rparr>"
  "receive_fails (e\<lparr>itsServices := s\<rparr>) = (receive_fails e)\<lparr>itsServices := s\<rparr>"
  "post_receive (e\<lparr>itsServices := s\<rparr>) = (post_receive e)\<lparr>itsServices := s\<rparr>"
  "e\<lparr>itsServices := s, completedReceives := cs\<rparr> = e\<lparr>completedReceives := cs, itsServices := s\<rparr>"
  "e\<lparr>itsServices := s, itsReceivedResponses := k\<rparr> = e\<lparr>itsReceivedResponses := k, itsServices := s\<rparr>"
  by (cases e; simp add: reset_counters_def cancel_receives_def receive_datagram_def receive_fails_def post_receive_def)+

lemma io_matches_table [simp]:
  "io_matches (e\<lparr>itsServices := s\<rparr>) ph io a u = io_matches e ph io a u"
  "io_matches e ph io (a\<lparr>itsServices := s\<rparr>) u = io_matches e ph io a u"
  by (cases ph; simp add: table_elsewhere prune_call_def pruning_due_def)+

text \<open>A visible step of a thread and its part in the specification.\<close>

lemma implements_call:
  assumes "implements P (Some c, ts) (Some s, st)" and "thread_step P (Some (Call i call)) (Some c, ts) (Some c', ts')"
  shows "i < length st \<and> st ! i = Idle \<and> implements P (Some c', ts') (Some s, st[i := Pending call])"
proof -
  from locking.simulated [OF assms] obtain y where "atomic_step P (Some (Call i call)) (Some s, st) y"
    "implements P (Some c', ts') y" by auto
  then show ?thesis by cases auto
qed

lemma implements_return:
  assumes "implements P (Some c, ts) (Some s, st)" and "thread_step P (Some (Return i ans)) (Some c, ts) (Some c', ts')"
  shows "i < length st \<and> (\<exists>call. st ! i = Answered call ans) \<and> implements P (Some c', ts') (Some s, st[i := Idle])"
proof -
  from locking.simulated [OF assms] obtain y where "atomic_step P (Some (Return i ans)) (Some s, st) y"
    "implements P (Some c', ts') y" by auto
  then show ?thesis by cases auto
qed

text \<open>A hidden step changes nothing, or performs a call that is pending.\<close>

lemma implements_internal:
  assumes "implements P (Some c, ts) (Some s, st)" and "thread_step P None (Some c, ts) (Some c', ts')"
  shows "implements P (Some c', ts') (Some s, st) \<or>
     (\<exists>i call ans s'. i < length st \<and> st ! i = Pending call \<and> perform P call s = (ans, Some s') \<and>
        implements P (Some c', ts') (Some s', st[i := Answered call ans]))"
proof -
  from locking.simulated [OF assms] show ?thesis
  proof
    assume "\<exists>y. atomic_step P None (Some s, st) y \<and> implements P (Some c', ts') y"
    then obtain y where "atomic_step P None (Some s, st) y" "implements P (Some c', ts') y" by blast
    then show ?thesis
    proof cases
      case (atomic_perform i call ans s')
      then obtain t where "s' = Some t" using \<open>implements P (Some c', ts') y\<close> by (cases s') (auto simp: implements.simps)
      with atomic_perform \<open>implements P (Some c', ts') y\<close> show ?thesis by blast
    qed
  qed simp
qed

lemma others_match_update:
  "others_match P allowed reached st \<Longrightarrow>
   (\<And>op. i \<noteq> 0 \<Longrightarrow> x = Pending (Update op) \<Longrightarrow> allowed op) \<Longrightarrow>
   (\<And>call ans. x = Answered call ans \<Longrightarrow> \<exists>a u. reached (a, u) \<and> fst (perform P call (itsServices a)) = ans) \<Longrightarrow>
   others_match P allowed reached (st[i := x])"
  by (cases "i < length st") (auto simp: others_match_def nth_list_update)

section \<open>The io thread away from the table\<close>

text \<open>What comes in and what is read does not depend on the table.\<close>

definition table_blind :: "('g engine \<Rightarrow> 'a \<Rightarrow> bool) \<Rightarrow> bool" where
  "table_blind f \<longleftrightarrow> (\<forall>e s x. f (e\<lparr>itsServices := s\<rparr>) x = f e x)"

lemma other_completion_value:
  assumes "\<not> carries_reply W E c"
  shows "handleFrontendRead P W E c e = Inr (if c = Aborted then e else post_receive e)"
proof (cases c)
  case (Received b)
  with assms show ?thesis by (simp add: handle_datagram Let_def)
qed (simp_all add: handleFrontendRead_def)

lemma startServiceDiscovery_table:
  "startServiceDiscovery N W E (e\<lparr>itsServices := s\<rparr>) =
     map_sum id (\<lambda>e'. e'\<lparr>itsServices := s\<rparr>) (startServiceDiscovery N W E e)"
  by (simp add: startServiceDiscovery_def Let_def post_receive_def split: sum.split)

lemma startServiceDiscovery_services: "startServiceDiscovery N W E e = Inr e' \<Longrightarrow> itsServices e' = itsServices e"
  by (auto simp: post_receive_def elim!: startServiceDiscovery_cases)

lemma io_moves_elsewhere:
  assumes "frontend_step P W arrives accept (\<lambda>op. False) (e, t) (e', t')" and "\<not> calls_table t t'"
    and "table_blind arrives" and "table_blind accept"
  shows "itsServices e' = itsServices e \<and>
     frontend_step P W arrives accept allowed (e\<lparr>itsServices := s\<rparr>, t) (e'\<lparr>itsServices := s\<rparr>, t')"
  using assms(1)
proof cases
  case (datagram_arrives d)
  with assms(3) show ?thesis
    using frontend_step.datagram_arrives [of "e\<lparr>itsServices := s\<rparr>" arrives d P W accept allowed]
    by (simp add: table_blind_def table_elsewhere, simp add: receive_datagram_def)
next
  case receive_error
  then show ?thesis
    using frontend_step.receive_error [of "e\<lparr>itsServices := s\<rparr>" P W arrives accept allowed]
    by (simp add: table_elsewhere, simp add: receive_fails_def)
next
  case (reply_begins q cs b m E)
  with assms(4) show ?thesis
    using frontend_step.reply_begins [of "e\<lparr>itsServices := s\<rparr>" q cs b m W E accept P arrives allowed]
    by (simp add: table_blind_def table_elsewhere)
next
  case reply_ends
  then show ?thesis
    using frontend_step.reply_ends [of P W arrives accept allowed "e\<lparr>itsServices := s\<rparr>"]
    by (simp add: table_elsewhere, simp add: post_receive_def)
next
  case (other_completion q cs c E)
  have "e' = (if c = Aborted then e\<lparr>completedReceives := cs\<rparr> else post_receive (e\<lparr>completedReceives := cs\<rparr>))"
    using other_completion(6) by (simp add: other_completion_value [OF other_completion(5)])
  then show ?thesis
    using frontend_step.other_completion [of "e\<lparr>itsServices := s\<rparr>" q cs c W E P "e'\<lparr>itsServices := s\<rparr>"
        arrives accept allowed] other_completion
    by (simp add: other_completion_value table_elsewhere split: if_splits) (simp add: post_receive_def)
next
  case (wakes_up N E)
  then have "itsServices e' = itsServices e"
    using startServiceDiscovery_services by (auto simp: wake_up_def split: if_splits)
  with wakes_up show ?thesis
    using frontend_step.wakes_up [of N W E "e\<lparr>itsServices := s\<rparr>" "e'\<lparr>itsServices := s\<rparr>" P arrives accept allowed]
    by (auto simp: wake_up_def startServiceDiscovery_table split: if_splits)
qed (use assms(2) in simp_all)

section \<open>The simulation\<close>

lemma same_engineD: "same_engine e a \<Longrightarrow> a = e\<lparr>itsServices := itsServices a\<rparr>"
  by (simp add: same_engine_def)

lemma same_engine_refl [simp]: "same_engine e e"
  by (cases e) (simp add: same_engine_def)

lemma pruning_close_round:
  assumes "pruning_due a"
  shows "close_round P E a = (reset_counters (cancel_receives a))\<lparr>itsServices := prune_services P E a\<rparr>"
  using assms by (cases a) (simp add: close_round_def reset_counters_def cancel_receives_def)

text \<open>The frontend performs the pending call of a thread.\<close>

lemma pending_call_performed:
  assumes "io_matches e ph (st ! 0) a u" and "others_match P allowed reached st" and "i < length st"
    and "st ! i = Pending call" and "perform P call (itsServices a) = (ans, Some s')"
  shows "\<exists>a' u'. itsServices a' = s' \<and> ((a', u') = (a, u) \<or> frontend_step P W arrives accept allowed (a, u) (a', u')) \<and>
     io_matches e ph (st[i := Answered call ans] ! 0) a' u'"
proof (cases "i = 0")
  case True
  consider ops op where "ph = Replying ops" "same_engine e a" "call = Update op" "u = InReply (op # ops)"
    | E where "ph = Pruning" "call = prune_call E a" "u = Waiting" "timerArmed a" "pruning_due a"
      "same_engine e (cancel_receives a)"
    using assms(1,4) True by (cases ph) auto
  then show ?thesis
  proof cases
    case 1
    from assms(5) 1(3) have "table_exec P op (itsServices a) = Some s'" by (metis perform_update snd_conv)
    from reply_call [OF this, of W arrives accept allowed ops] 1 True assms(3)
    show ?thesis by (intro exI [of _ "a\<lparr>itsServices := s'\<rparr>"] exI [of _ "InReply ops"]) simp
  next
    case 2
    have s': "s' = prune_services P E a" using assms(5) 2(2) by (simp add: prune_call_def prune_services_def split: prod.splits)
    have "itsServices (close_round P E a) = s'" using 2(5) s' by simp
    moreover have "same_engine (reset_counters e) (close_round P E a)"
      using 2(6) unfolding pruning_close_round [OF 2(5)]
      by (cases a; cases e) (simp add: same_engine_def reset_counters_def cancel_receives_def)
    ultimately show ?thesis
      using deadline [OF 2(4), of P W arrives accept allowed E] 2(1,3) True assms(3)
      by (intro exI [of _ "close_round P E a"] exI [of _ Asleep]) simp
  qed
next
  case False
  show ?thesis
  proof (cases call)
    case (Update op)
    then have "allowed op" using assms(2-4) False by (simp add: others_match_def)
    moreover have "table_exec P op (itsServices a) = Some s'" using assms(5) Update by (metis perform_update snd_conv)
    ultimately have "frontend_step P W arrives accept allowed (a, u) (a\<lparr>itsServices := s'\<rparr>, u)" by (rule other_thread)
    then show ?thesis using False assms(1)
      by (intro exI [of _ "a\<lparr>itsServices := s'\<rparr>"] exI [of _ u]) simp
  next
    case (Ask q)
    with assms(1,5) False show ?thesis by (intro exI [of _ a] exI [of _ u]) simp
  qed
qed

lemma matchesI:
  "implements P (Some (itsServices e), ts) (Some (itsServices a), st) \<Longrightarrow> st \<noteq> [] \<Longrightarrow>
   io_matches e ph (st ! 0) a u \<Longrightarrow> others_match P allowed reached st \<Longrightarrow> matches P allowed reached (e, ts, ph) (a, u)"
  by auto

lemma shared_step_matches:
  assumes "shared_step P W arrives accept allowed x x'" and "matches P allowed reached x y" and "reached y"
    and "table_blind arrives" and "table_blind accept"
  shows "\<exists>y'. (y' = y \<or> frontend_step P W arrives accept allowed y y') \<and> matches P allowed reached x' y'"
proof -
  obtain a u where y: "y = (a, u)" by (cases y)
  from assms(1) show ?thesis
  proof cases
    case (io_moves e t e' t' ts)
    from assms(2) obtain st where st: "implements P (Some (itsServices e), ts) (Some (itsServices a), st)" "st \<noteq> []"
      "st ! 0 = Idle" "u = t" "same_engine e a" "others_match P allowed reached st" by (auto simp: y io_moves(1))
    from io_moves_elsewhere [OF io_moves(3,4) assms(4,5), of allowed "itsServices a"] same_engineD [OF st(5)]
    have m: "itsServices e' = itsServices e" "frontend_step P W arrives accept allowed (a, t) (e'\<lparr>itsServices := itsServices a\<rparr>, t')"
      by simp_all
    have "matches P allowed reached x' (e'\<lparr>itsServices := itsServices a\<rparr>, t')"
      unfolding io_moves(2) by (rule matchesI [of _ _ _ _ st]) (use st m(1) in simp_all)
    with m(2) st(4) y show ?thesis by blast
  next
    case (reply_calls_table op e ts s ts' ops)
    from assms(2) obtain st where st: "implements P (Some (itsServices e), ts) (Some (itsServices a), st)" "st \<noteq> []"
      "u = InReply (op # ops)" "same_engine e a" "others_match P allowed reached st" by (auto simp: y reply_calls_table(1))
    note moved = implements_call [OF st(1) reply_calls_table(3)]
    have "matches P allowed reached x' y"
      unfolding reply_calls_table(2) y
      by (rule matchesI [of _ _ _ _ "st[0 := Pending (Update op)]"])
        (use st moved in \<open>auto intro: others_match_update\<close>)
    then show ?thesis by blast
  next
    case (reply_call_returns ans e ts s ts' ops)
    from assms(2) obtain st where st: "implements P (Some (itsServices e), ts) (Some (itsServices a), st)" "st \<noteq> []"
      "io_matches e (Replying ops) (st ! 0) a u" "others_match P allowed reached st"
      by (auto simp: y reply_call_returns(1) simp del: io_matches.simps)
    note moved = implements_return [OF st(1) reply_call_returns(3)]
    have "matches P allowed reached x' y"
      unfolding reply_call_returns(2) y
      by (rule matchesI [of _ _ _ _ "st[0 := Idle]"])
        (use st moved in \<open>auto intro: others_match_update\<close>)
    then show ?thesis by blast
  next
    case (deadline_spares e ts E)
    from assms(2) obtain st where st: "implements P (Some (itsServices e), ts) (Some (itsServices a), st)" "st \<noteq> []"
      "st ! 0 = Idle" "u = Waiting" "same_engine e a" "others_match P allowed reached st" by (auto simp: y deadline_spares(1))
    have a: "timerArmed a" "\<not> pruning_due a" "same_engine (close_round P E e) (close_round P E a)"
      using deadline_spares(3,4) st(5) by (cases a; cases e; simp add: same_engine_def close_round_def pruning_due_def)+
    have "matches P allowed reached x' (close_round P E a, Asleep)"
      unfolding deadline_spares(2) by (rule matchesI [of _ _ _ _ st]) (use st a(2,3) deadline_spares(4) in simp_all)
    moreover have "frontend_step P W arrives accept allowed (a, Waiting) (close_round P E a, Asleep)"
      by (rule deadline) (rule a(1))
    ultimately show ?thesis using st(4) y by blast
  next
    case (deadline_calls_table e E ts s ts')
    from assms(2) obtain st where st: "implements P (Some (itsServices e), ts) (Some (itsServices a), st)" "st \<noteq> []"
      "u = Waiting" "same_engine e a" "others_match P allowed reached st" by (auto simp: y deadline_calls_table(1))
    note moved = implements_call [OF st(1) deadline_calls_table(5)]
    have a: "timerArmed a" "pruning_due a" "prune_call E e = prune_call E a" "same_engine (cancel_receives e) (cancel_receives a)"
      using deadline_calls_table(3,4) st(4)
      by (cases a; cases e; simp add: same_engine_def cancel_receives_def pruning_due_def prune_call_def)+
    have "matches P allowed reached x' y"
      unfolding deadline_calls_table(2) y
      by (rule matchesI [of _ _ _ _ "st[0 := Pending (prune_call E e)]"])
        (use st moved a in \<open>auto intro: others_match_update\<close>)
    then show ?thesis by blast
  next
    case (deadline_call_returns ans e ts s ts')
    from assms(2) obtain st where st: "implements P (Some (itsServices e), ts) (Some (itsServices a), st)" "st \<noteq> []"
      "io_matches e Pruning (st ! 0) a u" "others_match P allowed reached st"
      by (auto simp: y deadline_call_returns(1) simp del: io_matches.simps)
    note moved = implements_return [OF st(1) deadline_call_returns(3)]
    have "matches P allowed reached x' y"
      unfolding deadline_call_returns(2) y
      by (rule matchesI [of _ _ _ _ "st[0 := Idle]"])
        (use st moved in \<open>auto intro: others_match_update\<close>)
    then show ?thesis by blast
  next
    case (threads_move l e ts s ts' ph)
    from assms(2) obtain st where st: "implements P (Some (itsServices e), ts) (Some (itsServices a), st)" "st \<noteq> []"
      "io_matches e ph (st ! 0) a u" "others_match P allowed reached st"
      by (auto simp: y threads_move(1) simp del: io_matches.simps)
    show ?thesis
    proof (cases l)
      case None
      from implements_internal [OF st(1)] threads_move(4) None consider
          "implements P (Some s, ts') (Some (itsServices a), st)"
        | i call ans s' where "i < length st" "st ! i = Pending call" "perform P call (itsServices a) = (ans, Some s')"
            "implements P (Some s, ts') (Some s', st[i := Answered call ans])" by blast
      then show ?thesis
      proof cases
        case 1
        have "matches P allowed reached x' y" unfolding threads_move(2) y
          by (rule matchesI [of _ _ _ _ st]) (use st 1 in simp_all)
        then show ?thesis by blast
      next
        case (2 i call ans s')
        from pending_call_performed [OF st(3,4) 2(1-3)] obtain a' u' where a': "itsServices a' = s'"
          "(a', u') = (a, u) \<or> frontend_step P W arrives accept allowed (a, u) (a', u')"
          "io_matches e ph (st[i := Answered call ans] ! 0) a' u'" by blast
        have "others_match P allowed reached (st[i := Answered call ans])"
        proof (rule others_match_update [OF st(4)])
          fix call' ans' assume "Answered call ans = Answered call' ans'"
          with 2(3) assms(3) y show "\<exists>a u. reached (a, u) \<and> fst (perform P call' (itsServices a)) = ans'"
            by (intro exI [of _ a] exI [of _ u]) simp
        qed simp
        with a' 2(4) st(2) have "matches P allowed reached x' (a', u')"
          unfolding threads_move(2) by (intro matchesI [of _ _ _ _ "st[i := Answered call ans]"]) simp_all
        with a'(2) y show ?thesis by blast
      qed
    next
      case (Some event)
      show ?thesis
      proof (cases event)
        case (Call i call)
        note moved = implements_call [OF st(1) threads_move(4) [unfolded Some Call]]
        have i: "i \<noteq> 0" "\<And>op. call = Update op \<Longrightarrow> allowed op"
          using threads_move(3) by (cases call; simp add: Some Call)+
        have "matches P allowed reached x' y" unfolding threads_move(2) y
          by (rule matchesI [of _ _ _ _ "st[i := Pending call]"])
            (use st moved i in \<open>auto intro: others_match_update simp del: io_matches.simps\<close>)
        then show ?thesis by blast
      next
        case (Return i ans)
        note moved = implements_return [OF st(1) threads_move(4) [unfolded Some Return]]
        have i: "i \<noteq> 0" using threads_move(3) by (simp add: Some Return)
        have "matches P allowed reached x' y" unfolding threads_move(2) y
          by (rule matchesI [of _ _ _ _ "st[i := Idle]"])
            (use st moved i in \<open>auto intro: others_match_update simp del: io_matches.simps\<close>)
        then show ?thesis by blast
      qed
    qed
  qed
qed

section \<open>The shared frontend is a frontend\<close>

lemma shared_reachable_matches:
  assumes "shared_reachable P W arrives accept allowed x" and "table_blind arrives" and "table_blind accept"
  shows "\<exists>y. frontend_reachable P W arrives accept allowed y \<and>
     matches P allowed (frontend_reachable P W arrives accept allowed) x y"
  using assms(1)
proof induction
  case (shared_launched N C e N' E e' n)
  have "others_match P allowed (frontend_reachable P W arrives accept allowed) (replicate n Idle)"
    by (simp add: others_match_def)
  with shared_launched(3) implements_start [of P "itsServices e'" n]
  have "matches P allowed (frontend_reachable P W arrives accept allowed) (e', replicate n Outside, Task Waiting) (e', Waiting)"
    by (intro matchesI [of _ _ _ _ "replicate n Idle"]) simp_all
  with launched [OF shared_launched(1,2)] show ?case by blast
next
  case (shared_moved x x')
  then obtain y where y: "frontend_reachable P W arrives accept allowed y"
    "matches P allowed (frontend_reachable P W arrives accept allowed) x y" by blast
  from shared_step_matches [OF shared_moved.hyps(2) y(2,1) assms(2,3)] y(1) show ?case by (blast intro: moved)
qed

lemma shared_frontend_implements:
  assumes "shared_reachable P W arrives accept allowed (e, ts, ph)"
    and "table_blind arrives" and "table_blind accept"
  shows "(\<forall>t. ph = Task t \<and> list_all at_rest ts \<longrightarrow> frontend_reachable P W arrives accept allowed (e, t)) \<and>
     (\<forall>call ans. Returning call ans \<in> set ts \<longrightarrow>
        (\<exists>a u. frontend_reachable P W arrives accept allowed (a, u) \<and>
           fst (perform P call (itsServices a)) = ans))"
proof -
  let ?reached = "frontend_reachable P W arrives accept allowed"
  obtain a u where r: "?reached (a, u)" and "matches P allowed ?reached (e, ts, ph) (a, u)"
    using shared_reachable_matches [OF assms] by (metis surj_pair)
  then obtain st where st: "implements P (Some (itsServices e), ts) (Some (itsServices a), st)"
    "io_matches e ph (st ! 0) a u" "others_match P allowed ?reached st"
    by (auto simp del: io_matches.simps)
  have "?reached (e, t)" if "ph = Task t" "list_all at_rest ts" for t
  proof -
    have "itsServices e = itsServices a" using implements_rest [OF st(1) that(2)] by simp
    moreover have "u = t" "same_engine e a" using st(2) that(1) by simp_all
    ultimately have "e = a" using same_engineD by (metis same_engine_def same_engine_refl)
    with r \<open>u = t\<close> show ?thesis by simp
  qed
  moreover have "\<exists>a u. ?reached (a, u) \<and> fst (perform P call (itsServices a)) = ans"
    if t: "Returning call ans \<in> set ts" for call ans
  proof -
    from t obtain i where i: "i < length ts" "ts ! i = Returning call ans" by (auto simp: in_set_conv_nth)
    then have "i < length st" "st ! i = Answered call ans" using implementsD(3) [OF st(1)] by simp_all
    with st(3) show ?thesis unfolding others_match_def by blast
  qed
  ultimately show ?thesis by blast
qed

section \<open>The converse\<close>

text \<open>Any step of the machine is a run of the threads, one call at a time.\<close>

lemma whole_call:
  assumes "perform P call (itsServices e) = (ans, Some s)" and "from_threads call" and "i < n"
  shows "\<exists>ts. thread_step P (Some (Call i call)) (Some (itsServices e), replicate n Outside) (Some (itsServices e), ts) \<and>
     (thread_step P None)\<^sup>*\<^sup>* (Some (itsServices e), ts) (Some s, (replicate n Outside)[i := Returning call ans]) \<and>
     thread_step P (Some (Return i ans)) (Some s, (replicate n Outside)[i := Returning call ans]) (Some s, replicate n Outside)"
  using call_completes [of "replicate n Outside" i call P "itsServices e" ans s] assms
  by (auto simp: list_all_length)

lemma no_step_when_gone: "\<not> thread_step P l (None, ts) y"
  by (auto elim: thread_step.cases)

lemma table_not_gone:
  assumes "(thread_step P None)\<^sup>*\<^sup>* z (Some s, ts)"
  shows "\<exists>s' ts'. z = (Some s', ts')"
proof (cases "fst z")
  case None
  then obtain ts' where z: "z = (None, ts')" by (cases z) simp
  from assms show ?thesis unfolding z
    by (rule converse_rtranclpE) (auto simp: no_step_when_gone)
qed (cases z, simp)

lemma threads_hidden:
  assumes "(thread_step P None)\<^sup>*\<^sup>* x y"
  shows "x = (Some (itsServices e), ts) \<Longrightarrow> y = (Some s, ts') \<Longrightarrow>
     (shared_step P W arrives accept allowed)\<^sup>*\<^sup>* (e, ts, ph) (e\<lparr>itsServices := s\<rparr>, ts', ph)"
  using assms
proof (induction arbitrary: e ts rule: converse_rtranclp_induct)
  case base
  then show ?case by (cases e) simp
next
  case (step x z)
  from table_not_gone step.hyps(2) step.prems(2) obtain s1 ts1 where z: "z = (Some s1, ts1)" by blast
  have "shared_step P W arrives accept allowed (e, ts, ph) (e\<lparr>itsServices := s1\<rparr>, ts1, ph)"
    by (rule threads_move [of _ None]) (use step.hyps(1) step.prems(1) z in simp_all)
  moreover have "(shared_step P W arrives accept allowed)\<^sup>*\<^sup>* (e\<lparr>itsServices := s1\<rparr>, ts1, ph)
      (e\<lparr>itsServices := s1, itsServices := s\<rparr>, ts', ph)"
    by (rule step.IH) (simp_all add: z step.prems(2))
  ultimately show ?case by (simp add: converse_rtranclp_into_rtranclp)
qed

text \<open>A call, the hidden steps and the return, each in its step of the machine.\<close>

lemma whole_call_shared:
  assumes "perform P call (itsServices em) = (ans, Some s)" and "from_threads call" and "i < n"
    and "\<And>ts. thread_step P (Some (Call i call)) (Some (itsServices em), replicate n Outside) (Some (itsServices em), ts) \<Longrightarrow>
       shared_step P W arrives accept allowed (e, replicate n Outside, ph) (em, ts, phm)"
    and "\<And>ts. thread_step P (Some (Return i ans)) (Some s, ts) (Some s, replicate n Outside) \<Longrightarrow>
       shared_step P W arrives accept allowed (em\<lparr>itsServices := s\<rparr>, ts, phm) (ee, replicate n Outside, phe)"
  shows "(shared_step P W arrives accept allowed)\<^sup>*\<^sup>* (e, replicate n Outside, ph) (ee, replicate n Outside, phe)"
proof -
  obtain ts where ts: "thread_step P (Some (Call i call)) (Some (itsServices em), replicate n Outside) (Some (itsServices em), ts)"
    "(thread_step P None)\<^sup>*\<^sup>* (Some (itsServices em), ts) (Some s, (replicate n Outside)[i := Returning call ans])"
    "thread_step P (Some (Return i ans)) (Some s, (replicate n Outside)[i := Returning call ans]) (Some s, replicate n Outside)"
    using whole_call [OF assms(1-3)] by blast
  note begins = assms(4) [OF ts(1)] and ends = assms(5) [OF ts(3)]
  have "(shared_step P W arrives accept allowed)\<^sup>*\<^sup>* (em, ts, phm)
      (em\<lparr>itsServices := s\<rparr>, (replicate n Outside)[i := Returning call ans], phm)"
    by (rule threads_hidden [OF ts(2)]) simp_all
  with begins ends show ?thesis by (meson converse_rtranclp_into_rtranclp rtranclp.rtrancl_into_rtrancl)
qed

lemma shared_reachable_steps:
  "(shared_step P W arrives accept allowed)\<^sup>*\<^sup>* x y \<Longrightarrow> shared_reachable P W arrives accept allowed x \<Longrightarrow>
     shared_reachable P W arrives accept allowed y"
  by (induction rule: rtranclp_induct) (auto intro: shared_moved)

text \<open>A call of another thread up to its answer.\<close>

lemma other_call_answered:
  assumes "perform P (Update op) (itsServices e) = (ans, Some s)" and "from_threads (Update op)" and "allowed op"
  shows "(shared_step P W arrives accept allowed)\<^sup>*\<^sup>* (e, replicate 2 Outside, ph)
     (e\<lparr>itsServices := s\<rparr>, [Outside, Returning (Update op) ans], ph)"
proof -
  have "(1 :: nat) < 2" by simp
  from whole_call [OF assms(1,2) this] obtain ts where ts:
    "thread_step P (Some (Call 1 (Update op))) (Some (itsServices e), replicate 2 Outside) (Some (itsServices e), ts)"
    "(thread_step P None)\<^sup>*\<^sup>* (Some (itsServices e), ts) (Some s, (replicate 2 Outside)[1 := Returning (Update op) ans])"
    by blast
  have "shared_step P W arrives accept allowed (e, replicate 2 Outside, ph) (e\<lparr>itsServices := itsServices e\<rparr>, ts, ph)"
    by (rule threads_move [OF _ ts(1)]) (use assms(3) in simp)
  moreover have "(shared_step P W arrives accept allowed)\<^sup>*\<^sup>* (e, ts, ph)
      (e\<lparr>itsServices := s\<rparr>, (replicate 2 Outside)[1 := Returning (Update op) ans], ph)"
    by (rule threads_hidden [OF ts(2)]) simp_all
  ultimately show ?thesis by (simp add: numeral_2_eq_2 converse_rtranclp_into_rtranclp)
qed

lemma perform_op: "table_exec P op s = Some s' \<Longrightarrow> \<exists>ans. perform P (Update op) s = (ans, Some s')"
  using perform_update [of P op s] by (metis prod.collapse)

lemma own_or_other:
  assumes "frontend_step P W arrives accept allowed (e, t) (e', t')"
  shows "frontend_step P W arrives accept (\<lambda>op. False) (e, t) (e', t') \<or>
     (\<exists>op s. allowed op \<and> table_exec P op (itsServices e) = Some s \<and> e' = e\<lparr>itsServices := s\<rparr> \<and> t' = t)"
  using assms by cases (blast intro: frontend_step.intros)+

fun io_calls_ok :: "'g io_task \<Rightarrow> bool" where
  "io_calls_ok (InReply ops) = list_all (\<lambda>op. from_threads (Update op)) ops"
| "io_calls_ok t = True"

lemma reply_calls_from_threads: "list_all (\<lambda>op. from_threads (Update op)) (reply_calls E m)"
  by (auto simp: list_all_iff elim: reply_calls_cases)

lemma io_calls_ok_step:
  "frontend_step P W arrives accept allowed x y \<Longrightarrow> io_calls_ok (snd x) \<Longrightarrow> io_calls_ok (snd y)"
  by (induction rule: frontend_step.induct) (auto simp: reply_calls_from_threads)

lemma step_is_shared_run:
  assumes "frontend_step P W arrives accept allowed (e, t) (e', t')" and "io_calls_ok t"
    and "\<And>op. allowed op \<Longrightarrow> from_threads (Update op)" and "2 \<le> n"
  shows "(shared_step P W arrives accept allowed)\<^sup>*\<^sup>* (e, replicate n Outside, Task t) (e', replicate n Outside, Task t')"
    (is "?runs (e, ?out, Task t) (e', ?out, Task t')")
  using own_or_other [OF assms(1)]
proof
  assume own: "frontend_step P W arrives accept (\<lambda>op. False) (e, t) (e', t')"
  show ?thesis
  proof (cases "calls_table t t'")
    case False
    from io_moves [OF own False] show ?thesis by blast
  next
    case True
    from own True show ?thesis
    proof cases
      case (reply_call op s ops)
      obtain ans where perf: "perform P (Update op) (itsServices e) = (ans, Some s)" using perform_op [OF reply_call(4)] by blast
      show ?thesis unfolding reply_call(1-3)
        by (rule whole_call_shared [where em = e and i = 0, OF perf])
          (use assms(2,4) reply_call(1) reply_calls_table [of P op e ?out "itsServices e"] reply_call_returns [of P ans "e\<lparr>itsServices := s\<rparr>"]
            in \<open>auto\<close>)
    next
      case (deadline E)
      show ?thesis
      proof (cases "pruning_due e")
        case False
        from deadline_spares [of e P W arrives accept allowed ?out E, OF deadline(4) False] deadline(1-3) show ?thesis by blast
      next
        case True
        let ?call = "prune_call E e" and ?em = "(cancel_receives e)\<lparr>itsServices := itsServices e\<rparr>"
        let ?s = "prune_services P E e"
        have perf: "perform P ?call (itsServices ?em) = (Flag True, Some ?s)"
          by (simp add: prune_call_def prune_services_def latestSequence_def)
        have closed: "(reset_counters (?em\<lparr>itsServices := ?s\<rparr>))\<lparr>itsServices := ?s\<rparr> = close_round P E e"
          by (simp add: pruning_close_round [OF True] table_elsewhere)
        have "?runs (e, ?out, Task Waiting) (close_round P E e, ?out, Task Asleep)"
        proof (rule whole_call_shared [OF perf])
          show "from_threads ?call" "0 < n" using assms(4) by (simp_all add: prune_call_def)
          show "shared_step P W arrives accept allowed (e, ?out, Task Waiting) (?em, ts, Pruning)"
            if "thread_step P (Some (Call 0 ?call)) (Some (itsServices ?em), ?out) (Some (itsServices ?em), ts)" for ts
            by (rule deadline_calls_table [OF deadline(4) True]) (use that in simp)
          show "shared_step P W arrives accept allowed (?em\<lparr>itsServices := ?s\<rparr>, ts, Pruning) (close_round P E e, ?out, Task Asleep)"
            if "thread_step P (Some (Return 0 (Flag True))) (Some ?s, ts) (Some ?s, ?out)" for ts
            unfolding closed [symmetric] by (rule deadline_call_returns) (use that in simp)
        qed
        with deadline(1-3) show ?thesis by simp
      qed
    qed simp_all
  qed
next
  assume "\<exists>op s. allowed op \<and> table_exec P op (itsServices e) = Some s \<and> e' = e\<lparr>itsServices := s\<rparr> \<and> t' = t"
  then obtain op s ans where op: "allowed op" "perform P (Update op) (itsServices e) = (ans, Some s)" "e' = e\<lparr>itsServices := s\<rparr>" "t' = t"
    using perform_op by blast
  show ?thesis unfolding op(3,4)
  proof (rule whole_call_shared [OF op(2) assms(3) [OF op(1)]])
    show "1 < n" using assms(4) by simp
    show "shared_step P W arrives accept allowed (e, ?out, Task t) (e, ts, Task t)"
      if "thread_step P (Some (Call 1 (Update op))) (Some (itsServices e), ?out) (Some (itsServices e), ts)" for ts
      using threads_move [of allowed "Some (Call 1 (Update op))" P e ?out "itsServices e" ts] that op(1) by simp
    show "shared_step P W arrives accept allowed (e\<lparr>itsServices := s\<rparr>, ts, Task t) (e\<lparr>itsServices := s\<rparr>, ?out, Task t)"
      if "thread_step P (Some (Return 1 ans)) (Some s, ts) (Some s, ?out)" for ts
      using threads_move [of allowed "Some (Return 1 ans)" P "e\<lparr>itsServices := s\<rparr>" ts s ?out] that by simp
  qed
qed

lemma plugin_from_threads: "plugin_op op \<Longrightarrow> from_threads (Update op)"
  by (cases op) auto

lemma frontend_runs_shared:
  assumes "frontend_reachable P W arrives accept allowed x"
    and "\<And>op. allowed op \<Longrightarrow> from_threads (Update op)" and "2 \<le> n"
  shows "io_calls_ok (snd x) \<and> shared_reachable P W arrives accept allowed (fst x, replicate n Outside, Task (snd x))"
  using assms(1)
proof induction
  case (launched N C e N' E e')
  with shared_launched [OF launched] assms(3) show ?case by simp
next
  case (moved x y)
  then have "(shared_step P W arrives accept allowed)\<^sup>*\<^sup>* (fst x, replicate n Outside, Task (snd x))
      (fst y, replicate n Outside, Task (snd y))"
    using step_is_shared_run [of P W arrives accept allowed "fst x" "snd x" "fst y" "snd y" n] assms(2,3) by simp
  with moved io_calls_ok_step show ?case by (blast intro: shared_reachable_steps)
qed

section \<open>The shared frontend and the frontend\<close>

text \<open>
  C5. The frontend whose threads share the table under its locks is the frontend of the state
  machine, where every call on the table is one step: whenever the io thread is away from the
  table and no other call is under way, the state is one the machine reaches; and whatever a
  thread has been answered is the answer to its call on the table of such a state. What is proved of the
  reachable states of the machine holds of the concurrent program.
\<close>

theorem shared_frontend_is_frontend:
  assumes "shared_reachable P W arrives accept allowed (e, ts, ph)"
    and "table_blind arrives" and "table_blind accept"
  shows "(\<forall>t. ph = Task t \<and> list_all at_rest ts \<longrightarrow> frontend_reachable P W arrives accept allowed (e, t)) \<and>
     (\<forall>call ans. Returning call ans \<in> set ts \<longrightarrow>
        (\<exists>a u. frontend_reachable P W arrives accept allowed (a, u) \<and>
           fst (perform P call (itsServices a)) = ans))"
  by (rule shared_frontend_implements [OF assms])

lemma sample_frontend_1_shared:
  "shared_reachable reference_platform sample_wire (\<lambda>e d. True) in_round plugin_op
     (sample_frontend_1, replicate 2 Outside, Task Waiting)"
  using frontend_runs_shared [OF sample_frontend_1_timely plugin_from_threads order_refl] by simp

theorem shared_frontend_is_frontend_witness:
  "\<exists>call :: nat table_call. \<exists>ans e.
     shared_reachable reference_platform sample_wire (\<lambda>e d. True) in_round plugin_op
       (e, [Outside, Returning call ans], Task Waiting) \<and>
     frontend_reachable reference_platform sample_wire (\<lambda>e d. True) in_round plugin_op (e, Waiting) \<and>
     (\<exists>a u. frontend_reachable reference_platform sample_wire (\<lambda>e d. True) in_round plugin_op (a, u) \<and>
        fst (perform reference_platform call (itsServices a)) = ans)"
proof -
  let ?call = "Update (OpGetService sample_env sample_request)" and ?s = "itsServices sample_frontend_1"
  obtain ans s where perf: "perform reference_platform ?call ?s = (ans, Some s)"
    by (cases "getService reference_platform sample_env sample_request ?s") simp
  let ?e = "sample_frontend_1\<lparr>itsServices := s\<rparr>" and ?ts = "[Outside, Returning ?call ans]"
  have r: "shared_reachable reference_platform sample_wire (\<lambda>e d. True) in_round plugin_op (?e, ?ts, Task Waiting)"
    by (rule shared_reachable_steps [OF other_call_answered sample_frontend_1_shared])
      (use perf in simp_all)
  from shared_frontend_is_frontend [OF this]
  have "frontend_reachable reference_platform sample_wire (\<lambda>e d. True) in_round plugin_op (?e, Waiting)"
    "\<exists>a u. frontend_reachable reference_platform sample_wire (\<lambda>e d. True) in_round plugin_op (a, u) \<and>
       fst (perform reference_platform ?call (itsServices a)) = ans"
    by (simp_all add: table_blind_def in_round_def del: perform.simps)
  with r show ?thesis by blast
qed

text \<open>
  C12. Both machines reach the same states with all threads away from the table: nothing
  the state machine does is an artefact of its one-step calls.
\<close>

theorem frontend_is_shared_frontend:
  assumes "table_blind arrives" and "table_blind accept"
    and "\<And>op. allowed op \<Longrightarrow> from_threads (Update op)" and "2 \<le> n"
  shows "shared_reachable P W arrives accept allowed (e, replicate n Outside, Task t) \<longleftrightarrow>
     frontend_reachable P W arrives accept allowed (e, t)"
proof
  assume "shared_reachable P W arrives accept allowed (e, replicate n Outside, Task t)"
  from shared_frontend_implements [OF this assms(1,2)] show "frontend_reachable P W arrives accept allowed (e, t)"
    by (simp add: list_all_length)
next
  assume "frontend_reachable P W arrives accept allowed (e, t)"
  from frontend_runs_shared [OF this assms(3,4)] show "shared_reachable P W arrives accept allowed (e, replicate n Outside, Task t)"
    by simp
qed

theorem frontend_is_shared_frontend_witness:
  "shared_reachable reference_platform sample_wire (\<lambda>e d. True) in_round plugin_op
     (sample_frontend_1, replicate 3 Outside, Task Waiting)"
proof -
  have "shared_reachable reference_platform sample_wire (\<lambda>e d. True) in_round plugin_op
      (sample_frontend_1, replicate 3 Outside, Task Waiting) \<longleftrightarrow>
    frontend_reachable reference_platform sample_wire (\<lambda>e d. True) in_round plugin_op (sample_frontend_1, Waiting)"
    by (rule frontend_is_shared_frontend) (simp_all add: table_blind_def in_round_def plugin_from_threads)
  with sample_frontend_1_timely show ?thesis by blast
qed

end
