(* ===== verification/Shared_Cluster.thy ===== *)
theory Shared_Cluster
  imports Cluster Shared_Frontend
begin

text \<open>
  The whole system with its threads: the cluster of \<open>Cluster\<close> whose frontend is that of
  \<open>Shared_Frontend\<close>, so that the io thread works on the replies of the network while
  the threads of the server forward requests, all of them under the locks of the table.
\<close>

section \<open>The machine\<close>

record 'g shared_cluster =
  shared_front :: "'g shared_frontend"
  shared_nodes :: "nat \<Rightarrow> 'g engine"

inductive shared_cluster_step ::
  "'g platform \<Rightarrow> wire \<Rightarrow> (nat \<Rightarrow> string set) \<Rightarrow> 'g shared_cluster \<Rightarrow> 'g shared_cluster \<Rightarrow> bool"
  for P :: "'g platform" and W :: wire and serves :: "nat \<Rightarrow> string set" where
  shared_front_step:
    "shared_step P W (delivered W (shared_nodes c)) (\<lambda>e m. True) plugin_op (shared_front c) x \<Longrightarrow>
       shared_cluster_step P W serves c (c\<lparr>shared_front := x\<rparr>)"
| shared_node_step:
    "backend_step W (\<lambda>E. set (getURIMap E) \<subseteq> serves i) (shared_nodes c i) e \<Longrightarrow>
       shared_cluster_step P W serves c (c\<lparr>shared_nodes := (shared_nodes c)(i := e)\<rparr>)"
| shared_front_restart:
    "started W ModeFrontend e \<Longrightarrow> n > 0 \<Longrightarrow>
       shared_cluster_step P W serves c (c\<lparr>shared_front := (e, replicate n Outside, Task Waiting)\<rparr>)"
| shared_node_restart:
    "started W ModeBackend e \<Longrightarrow> itsServer e = itsServer (shared_nodes c i) \<Longrightarrow>
       shared_cluster_step P W serves c
         (c\<lparr>shared_nodes := (shared_nodes c)(i := e\<lparr>sentDatagrams := sentDatagrams (shared_nodes c i)\<rparr>)\<rparr>)"

inductive shared_cluster_reachable ::
  "'g platform \<Rightarrow> wire \<Rightarrow> (nat \<Rightarrow> string set) \<Rightarrow> 'g shared_cluster \<Rightarrow> bool"
  for P :: "'g platform" and W :: wire and serves :: "nat \<Rightarrow> string set" where
  shared_all_started:
    "started W ModeFrontend e \<Longrightarrow> n > 0 \<Longrightarrow> (\<And>i. started W ModeBackend (ns i)) \<Longrightarrow>
       shared_cluster_reachable P W serves
         \<lparr>shared_front = (e, replicate n Outside, Task Waiting), shared_nodes = ns\<rparr>"
| shared_cluster_moved:
    "shared_cluster_reachable P W serves c \<Longrightarrow> shared_cluster_step P W serves c c' \<Longrightarrow>
       shared_cluster_reachable P W serves c'"

section \<open>The simulation\<close>

text \<open>The frontends of the reachable states of the cluster whose backends have this identity.\<close>

definition front_reached ::
  "'g platform \<Rightarrow> wire \<Rightarrow> (nat \<Rightarrow> string set) \<Rightarrow> (nat \<Rightarrow> server_config) \<Rightarrow> 'g frontend \<Rightarrow> bool" where
  "front_reached P W serves cfg y \<longleftrightarrow>
     (\<exists>s. cluster_reachable P W serves s \<and> front s = y \<and> (\<forall>i. itsServer (nodes s i) = cfg i))"

definition cluster_matches ::
  "'g platform \<Rightarrow> wire \<Rightarrow> (nat \<Rightarrow> string set) \<Rightarrow> 'g shared_cluster \<Rightarrow> 'g cluster \<Rightarrow> bool" where
  "cluster_matches P W serves c s \<longleftrightarrow>
     cluster_reachable P W serves s \<and> nodes s = shared_nodes c \<and>
     matches P plugin_op (front_reached P W serves (\<lambda>i. itsServer (shared_nodes c i))) (shared_front c) (front s)"

lemma delivered_blind: "table_blind (delivered W ns)"
  by (simp add: table_blind_def delivered_def)

lemma matches_start:
  "n > 0 \<Longrightarrow> matches P allowed reached (e, replicate n Outside, Task Waiting) (e, Waiting)"
  using implements_start [of P "itsServices e" n]
  by (intro matchesI [of _ _ _ _ "replicate n Idle"]) (simp_all add: others_match_def)

lemma shared_cluster_step_matches:
  assumes "shared_cluster_step P W serves c c'" and "cluster_matches P W serves c s"
  shows "\<exists>s'. cluster_matches P W serves c' s'"
proof -
  note reach = assms(2) [unfolded cluster_matches_def, THEN conjunct1]
    and same = assms(2) [unfolded cluster_matches_def, THEN conjunct2, THEN conjunct1]
    and m = assms(2) [unfolded cluster_matches_def, THEN conjunct2, THEN conjunct2]
  from assms(1) show ?thesis
  proof cases
    case (shared_front_step x)
    let ?reached = "front_reached P W serves (\<lambda>i. itsServer (shared_nodes c i))"
    have "?reached (front s)" using reach same by (auto simp: front_reached_def)
    from shared_step_matches [OF shared_front_step(2) m this delivered_blind] obtain y where
      y: "y = front s \<or> frontend_step P W (delivered W (nodes s)) (\<lambda>e m. True) plugin_op (front s) y"
      "matches P plugin_op ?reached x y"
      by (auto simp: table_blind_def same)
    have "cluster_reachable P W serves (s\<lparr>front := y\<rparr>)"
      using y(1) reach front_step [of P W s y serves] cluster_moved by (cases s) auto
    with y(2) same show ?thesis
      by (intro exI [of _ "s\<lparr>front := y\<rparr>"]) (simp add: cluster_matches_def shared_front_step(1))
  next
    case (shared_node_step i e)
    have "cluster_step P W serves s (s\<lparr>nodes := (nodes s)(i := e)\<rparr>)"
      by (rule node_step) (use shared_node_step(2) same in simp)
    moreover have "(\<lambda>j. itsServer (((shared_nodes c)(i := e)) j)) = (\<lambda>j. itsServer (shared_nodes c j))"
      using backend_step_server [OF shared_node_step(2)] by auto
    ultimately show ?thesis using reach same m
      by (intro exI [of _ "s\<lparr>nodes := (nodes s)(i := e)\<rparr>"])
        (auto simp: cluster_matches_def shared_node_step(1) intro: cluster_moved)
  next
    case (shared_front_restart e n)
    with reach same show ?thesis
      by (intro exI [of _ "s\<lparr>front := (e, Waiting)\<rparr>"])
        (auto simp: cluster_matches_def simp del: matches.simps intro: matches_start cluster_moved front_restart)
  next
    case (shared_node_restart e i)
    let ?e = "e\<lparr>sentDatagrams := sentDatagrams (shared_nodes c i)\<rparr>"
    have "cluster_step P W serves s (s\<lparr>nodes := (nodes s)(i := ?e)\<rparr>)"
      unfolding same [symmetric] by (rule node_restart) (use shared_node_restart(2,3) same in simp_all)
    moreover have "(\<lambda>j. itsServer (((shared_nodes c)(i := ?e)) j)) = (\<lambda>j. itsServer (shared_nodes c j))"
      using shared_node_restart(3) by auto
    ultimately show ?thesis using reach same m
      by (intro exI [of _ "s\<lparr>nodes := (nodes s)(i := ?e)\<rparr>"])
        (auto simp: cluster_matches_def shared_node_restart(1) intro: cluster_moved)
  qed
qed

lemma shared_cluster_reachable_matches:
  "shared_cluster_reachable P W serves c \<Longrightarrow> \<exists>s. cluster_matches P W serves c s"
proof (induction rule: shared_cluster_reachable.induct)
  case (shared_all_started e n ns)
  from all_started [OF shared_all_started(1,3)] matches_start [OF shared_all_started(2)] show ?case
    by (intro exI [of _ "\<lparr>front = (e, Waiting), nodes = ns\<rparr>"]) (simp add: cluster_matches_def del: matches.simps)
qed (blast intro: shared_cluster_step_matches)

lemma answered_in_cluster:
  assumes "shared_cluster_reachable P W serves c" and "shared_front c = (e, ts, ph)" and "Returning call ans \<in> set ts"
  shows "\<exists>s a u. cluster_reachable P W serves s \<and> front s = (a, u) \<and>
     (\<forall>i. itsServer (nodes s i) = itsServer (shared_nodes c i)) \<and> fst (perform P call (itsServices a)) = ans"
proof -
  obtain s where s: "cluster_matches P W serves c s" using shared_cluster_reachable_matches [OF assms(1)] by blast
  obtain a u where "front s = (a, u)" by (cases "front s")
  with s assms(2) obtain st where st: "implements P (Some (itsServices e), ts) (Some (itsServices a), st)"
    "others_match P plugin_op (front_reached P W serves (\<lambda>i. itsServer (shared_nodes c i))) st"
    by (auto simp: cluster_matches_def simp del: io_matches.simps)
  obtain i where "i < length ts" "ts ! i = Returning call ans" using assms(3) by (auto simp: in_set_conv_nth)
  then have "i < length st" "st ! i = Answered call ans" using implementsD(3) [OF st(1)] by simp_all
  then show ?thesis using st(2) unfolding others_match_def front_reached_def by blast
qed

section \<open>Runs of the cluster are runs of its threads\<close>

lemma shared_front_steps:
  assumes "(shared_step P W (delivered W (shared_nodes c)) (\<lambda>e m. True) plugin_op)\<^sup>*\<^sup>* (shared_front c) x"
    and "shared_cluster_reachable P W serves c"
  shows "shared_cluster_reachable P W serves (c\<lparr>shared_front := x\<rparr>)"
  using assms
proof (induction rule: rtranclp_induct)
  case base
  then show ?case by simp
next
  case (step x y)
  from shared_front_step [of P W "c\<lparr>shared_front := x\<rparr>" y serves] step shared_cluster_moved show ?case by fastforce
qed

definition with_threads :: "'g cluster \<Rightarrow> 'g shared_cluster" where
  "with_threads s =
     \<lparr>shared_front = (fst (front s), replicate 2 Outside, Task (snd (front s))), shared_nodes = nodes s\<rparr>"

lemma cluster_runs_shared:
  "cluster_reachable P W serves s \<Longrightarrow>
   io_calls_ok (snd (front s)) \<and> shared_cluster_reachable P W serves (with_threads s)"
proof (induction rule: cluster_reachable.induct)
  case (all_started e ns)
  from shared_all_started [OF all_started(1) _ all_started(2), of 2 P serves] show ?case by (simp add: with_threads_def)
next
  case (cluster_moved s s')
  from cluster_moved.hyps(2) show ?case
  proof cases
    case (front_step x)
    obtain e t e' t' where x: "front s = (e, t)" "x = (e', t')" by (cases "front s"; cases x)
    from step_is_shared_run [OF front_step(2) [unfolded x] _ plugin_from_threads order_refl] cluster_moved.IH
    have "(shared_step P W (delivered W (nodes s)) (\<lambda>e m. True) plugin_op)\<^sup>*\<^sup>*
        (shared_front (with_threads s)) (shared_front (with_threads s'))"
      by (simp add: with_threads_def front_step(1) x)
    with shared_front_steps [of P W "with_threads s" "shared_front (with_threads s')" serves] cluster_moved.IH
      io_calls_ok_step [OF front_step(2)]
    show ?thesis by (simp add: with_threads_def front_step(1))
  next
    case (node_step i e)
    with shared_node_step [of W serves i "with_threads s" e P] cluster_moved.IH shared_cluster_moved show ?thesis
      by (fastforce simp: with_threads_def)
  next
    case (front_restart e)
    with shared_front_restart [of W e 2 P serves "with_threads s"] cluster_moved.IH shared_cluster_moved show ?thesis
      by (fastforce simp: with_threads_def)
  next
    case (node_restart e i)
    with shared_node_restart [of W e "with_threads s" i P serves] cluster_moved.IH shared_cluster_moved show ?thesis
      by (fastforce simp: with_threads_def)
  qed
qed

section \<open>Forwarded requests\<close>

text \<open>
  C6. Whatever the threads of the frontend do while its io thread works on what the network
  delivers, a request that a thread is told to forward goes to the address, under the host
  name and the port, of a backend of the system, for a URI which the plugins of that backend
  register; and the prefix map the frontend has in some state of the system translates the URI of the
  request to that URI or to the per-host one of the same backend.
\<close>

theorem threads_forward_to_serving_backends:
  assumes "shared_cluster_reachable P W serves c" and "shared_front c = (e, ts, ph)"
    and "Returning (Update (OpGetService E r)) (Service (Inr (Some svc))) \<in> set ts"
  shows "\<exists>i s a u. let cfg = itsServer (shared_nodes c i)
     in service_key svc = (itsHostname cfg, uint (itsHttpPort cfg)) \<and>
        IP (Backend svc) = itsHttpAddress cfg \<and> Throttle (Backend svc) = itsThrottleLimit cfg \<and>
        URI svc \<in> serves i \<and>
        cluster_reachable P W serves s \<and> front s = (a, u) \<and>
        translate P (itsPrefixMap (itsServices a)) (getResource r) \<in> {URI svc, ''/'' @ itsHostname cfg @ URI svc}"
proof -
  obtain s a u where s: "cluster_reachable P W serves s" "front s = (a, u)"
    "\<And>i. itsServer (nodes s i) = itsServer (shared_nodes c i)"
    "fst (perform P (Update (OpGetService E r)) (itsServices a)) = Service (Inr (Some svc))"
    using answered_in_cluster [OF assms] by blast
  have "fst (getService P E r (itsServices a)) = Inr (Some svc)" using s(4) by (simp split: prod.splits)
  note offered = answer_offered [OF s(1,2) this]
  with s(1,2) show ?thesis unfolding some_offers_def offered_def Let_def s(3) by blast
qed

theorem threads_forward_to_serving_backends_witness:
  "\<exists>W c svc e. shared_cluster_reachable reference_platform W (\<lambda>i. {''/wms''}) c \<and>
     shared_front c = (e, [Outside, Returning (Update (OpGetService sample_env sample_request))
       (Service (Inr (Some svc)))], Task Waiting) \<and> URI svc = ''/wms''"
proof -
  obtain W s e svc where s: "cluster_reachable reference_platform W (\<lambda>i. {''/wms''}) s" "front s = (e, Waiting)"
    "fst (getService reference_platform sample_env sample_request (itsServices e)) = Inr (Some svc)"
    using sample_cluster_forwards by blast
  then obtain t where perf: "perform reference_platform (Update (OpGetService sample_env sample_request)) (itsServices e) =
      (Service (Inr (Some svc)), Some t)"
    by (cases "getService reference_platform sample_env sample_request (itsServices e)") simp
  let ?x = "(e\<lparr>itsServices := t\<rparr>, [Outside, Returning (Update (OpGetService sample_env sample_request))
       (Service (Inr (Some svc)))], Task Waiting)"
  have "(shared_step reference_platform W (delivered W (shared_nodes (with_threads s))) (\<lambda>e m. True) plugin_op)\<^sup>*\<^sup>*
      (shared_front (with_threads s)) ?x"
    using other_call_answered [OF perf] s(2) by (simp add: with_threads_def)
  with cluster_runs_shared [OF s(1)]
  have r: "shared_cluster_reachable reference_platform W (\<lambda>i. {''/wms''}) (with_threads s\<lparr>shared_front := ?x\<rparr>)"
    using shared_front_steps by blast
  from threads_forward_to_serving_backends [OF r, of "e\<lparr>itsServices := t\<rparr>"] have "URI svc = ''/wms''"
    by (fastforce simp: Let_def)
  with r show ?thesis by fastforce
qed

end
