(* ===== verification/Spec2Isabelle.thy ===== *)
theory Spec2Isabelle
  imports Table_Properties Table_Spec Shared_Cluster
begin

text \<open>
  SmartMet Sputnik engine: service discovery and load balancing of a SmartMet cluster.

  The program. A frontend broadcasts a request every few seconds (\<open>Engine\<close>), the backends
  answer with the URIs they serve (\<open>Messages\<close>), and the frontend keeps what they announced
  in a routing table (\<open>Services\<close>). The frontend plugin asks the table for the service of an
  HTTP request: the URI is translated by the prefix map (\<open>URIPrefixMap\<close>) and the forwarder
  of the URI (\<open>BackendForwarder\<close>, seven strategies) picks an index in the list of services.
  A sentinel per backend (\<open>BackendSentinel\<close>) counts the connections sent to it since its
  last sign of life.

  The theories, in the order they build on each other.
  \<^item> \<open>Sputnik_Prelude\<close>: exceptions as values, the erase loops, \<open>std::to_string\<close>, \<open>find\<close>.
  \<^item> \<open>Ordered_Map\<close>: \<open>std::map\<close> as an association list in key order, with the interface
    \<open>keyed_store\<close> and its interpretation \<open>om\<close>.
  \<^item> \<open>Binary_Float\<close>: \<open>float\<close> and \<open>double\<close> rounding (to nearest, ties to even, with overflow,
    infinities and not-a-number), with the interface \<open>rounding\<close>.
  \<^item> \<open>Sentinel\<close>: sputnik/BackendSentinel; the interface \<open>health_tracker\<close>.
  \<^item> \<open>Backend_Types\<close>: BackendServer.h, BackendService.h, BackendInfo.h, BackendInfoRequest.h,
    and the parameters \<open>platform\<close> (Boost, libm) and \<open>env\<close> (readings of the reactor).
  \<^item> \<open>Rendezvous\<close>: the selection loop of the sticky strategy over any score; the interface
    \<open>best_pick\<close> (the answer depends on the set of eligible keys only).
  \<^item> \<open>Slots\<close>: the contract between a list of the table and its forwarder (\<open>backend_slots\<close>,
    extended by \<open>slot_picker\<close>), where the lemmas on erase loops and index ranges are proved;
    \<open>backend_entries\<close> is the stronger one over whole entries (with their load), a
    \<open>backend_slots\<close> of the keys.
  \<^item> \<open>Sticky_Forwarder\<close>: sputnik/StickyForwarder.cpp: FNV-1a, cookie parsing, affinity key,
    hotspot exclusion, the choice and its stability.
  \<^item> \<open>Forwarders\<close>, \<open>Balancing\<close>: sputnik/*Forwarder.cpp: weights, operations, the conditions
    under which each strategy answers an index of its list (\<open>fwd_ready\<close>), the
    interpretation \<open>fw\<close> of \<open>slot_picker\<close>, and what each strategy prefers.
  \<^item> \<open>Prefix_Map\<close>: sputnik/URIPrefixMap.cpp; the interface \<open>prefix_table\<close>.
  \<^item> \<open>Services\<close>, \<open>Routing\<close>: sputnik/Services.cpp: the operations of the routing table; its
    well-formedness \<open>services_wf\<close>, kept by every operation.
  \<^item> \<open>Runs\<close>, \<open>Table_Runs\<close>, \<open>Table_Properties\<close>: sequences of table operations
    (\<open>table_op\<close>, \<open>table_exec\<close>), what is listed and counted along them, and the properties of
    the table.
  \<^item> \<open>Alignment\<close>: the lists of the table and of the forwarders in step, position by position,
    for any view of their entries (the interface \<open>table_view\<close>, interpreted for the keys,
    \<open>aligned\<close>, and for host, port and load, \<open>mirrored\<close>).
  \<^item> \<open>Table_Spec\<close>: the abstract specification of the table (services per URI, unanswered
    connections per backend) and the refinement.
  \<^item> \<open>Messages\<close>: BroadcastMessage.proto and sputnik/Messages.cpp.
  \<^item> \<open>Engine\<close>: sputnik/Engine.cpp: construction, launch, the handlers of frontend and backend
    as functions of the engine state, the pause.
  \<^item> \<open>Services_Report\<close>: the reports of Services.cpp and Engine.cpp, the queries of the engine
    and the C entry points of the module.
  \<^item> \<open>Discovery\<close>: the outcomes of the frontend's handlers, the calls a reply makes on the table.
  \<^item> \<open>Frontend_Node\<close>: the frontend as a state machine (\<open>frontend_step\<close>): its io thread, which is
    idle, in the middle of a reply or asleep between two rounds, the receives Boost.Asio
    completes for it, and the other threads, which call the table at any time; its invariant.
  \<^item> \<open>Timely\<close>, \<open>Exchange\<close>: the forwarders as mirrors of the table under timely
    replies, across prunings and the wrap of the sequence number; the answer of a backend,
    silent rounds, the pause and the launch.
  \<^item> \<open>Rounds\<close>: what a round leaves in the table (\<open>hear\<close> is the sequence of datagrams received
    in it) and how old a listed service can be.
  \<^item> \<open>Backend_Node\<close>: the types of the messages a backend sends; the backend as a state machine
    (\<open>backend_step\<close>) with its invariant; the end of both loops at shutdown (\<open>frontend_io\<close>
    counts the completions that still run).
  \<^item> \<open>Cluster\<close>: one frontend, any number of backends and a network that loses, delays,
    repeats and reorders what they sent (\<open>cluster_step\<close>, where \<open>delivered\<close> says what may reach
    the frontend): one whole round of the discovery, and what the table can hold in any run,
    restarts included.
  \<^item> \<open>Table_Calls\<close>, \<open>Locking\<close>, \<open>Concurrency\<close>: the table under concurrent calls. Each operation
    of Services.cpp is taken apart into the locks it takes on \<open>itsMutex\<close> and
    \<open>itsSentinelMutex\<close> and the accesses it makes under them (\<open>body\<close>, \<open>look_up\<close>, \<open>finish\<close>,
    \<open>with_sentinel\<close>); \<open>thread_step\<close> interleaves the threads, \<open>atomic_step\<close> is the
    specification in which a call is one operation. A forward simulation (the interface
    \<open>forward_simulation\<close>) gives linearizability; a measure and the order of the locks give
    that there is no deadlock and that the calls under way end once no new ones are made, and each
    call made while all others rest gets the answer of the whole operation. That a writer is
    served while readers keep coming is not shown: a shared lock does not promise it.
  \<^item> \<open>Shared_Frontend\<close>: the frontend and its threads together (\<open>shared_step\<close>). Its io thread
    is thread 0 and makes the calls of a reply and of the pruning under the locks, like the
    threads of the server. The machine of \<open>Frontend_Node\<close>, with its one-step calls, is its
    specification: a simulation in one direction, and every run of the specification is one of
    the threads.
  \<^item> \<open>Shared_Cluster\<close>: the cluster with that frontend: what a thread that forwards requests is
    answered while replies come in, rounds end and engines restart.

  State and operations. A class is a record whose fields bear the names of its members, an
  operation a function of the record; what it throws is an \<open>Inl\<close> of \<open>exn\<close>. Shared pointers
  are values: the objects they share are never changed after construction, or have one
  owner. The operations of the table are steps of their own, which \<open>Concurrency\<close>
  justifies for any number of threads; the handlers of the engine run on one thread, but other
  threads use the table between any two calls they make on it, which \<open>Shared_Frontend\<close>
  justifies in the same way. A receive that has completed is
  no longer cancelled, and all receives share one buffer, as Boost.Asio has it: the engine's
  state holds the posted receives, the completed ones in their order, and the buffer. The
  pause of the engine is read and written in one section of its mutex each. Unsigned members are
  words of their width; ports and sequence numbers of messages, which are \<open>int32\<close>, are \<open>int\<close>.
  An exception that leaves a handler ends the thread of the \<open>io_context\<close>; the state after it
  is not modelled.

  Parameters. \<open>platform\<close>: \<open>starts_with\<close>, \<open>split\<close>, \<open>trim\<close>, the random distributions and
  \<open>std::exp\<close>; \<open>wire\<close>: the Protocol Buffers encoding; \<open>net\<close>: address parsing, \<open>Fmi::stoi\<close> and
  the failures of the socket; \<open>env\<close> and \<open>engine_env\<close>: the readings of the reactor, the clock,
  the load and the random seed, new at every operation. What the properties assume of them
  is named (\<open>starts_with_law\<close>, \<open>uniform_law\<close>, \<open>discrete_law\<close>, \<open>split_law\<close>) and instantiated
  by \<open>reference_platform\<close> in the witnesses.

  Bounds. No fuel is used: every loop of the program is a recursion over a list. Forwarders
  hold at most \<open>2 ^ 24\<close> backends where weights are summed (the sums of ones are exact up to
  there), request counts are below \<open>2 ^ 31\<close>, and the alignment theorem allows at most 65000
  silent rounds (the sequence number repeats after 65535).

  Not modelled: the log output (and with it the destructor of the engine, which does nothing
  else), the mutexes of the single forwarder, sentinel and prefix map (each of their
  operations is one section of its mutex, and one access here), the failure branches of
  Protocol Buffers (null submessages) and of out-of-memory, and the exceptions of the
  configuration reader for a setting of the wrong type. The casts of the frontend's sequence number to
  \<open>int\<close> (Engine.cpp, lines 198, 211 and 281) are written as \<open>uint\<close>, without the throw: the
  number stays below 65535 (\<open>frontend_invariant\<close>). The number of cores, a static variable of
  \<open>sendDiscoveryReply\<close>, is read at each reply here. In \<open>Cluster\<close> a datagram reaches
  the frontend only while no other waits in its buffer (\<open>overtaken_datagram_is_lost\<close> shows what
  happens otherwise), and a reply that the receive buffer of 8192 bytes cuts off does not arrive as
  a reply: what its first bytes decode to depends on the encoding.
\<close>

end
